theory Spec2Isabelle
  imports Main "HOL-Library.Sublist"
begin

section \<open>Strings\<close>

text \<open>
  A string is the list of its characters. The library calls the sources use are written
  out here: \<^verbatim>\<open>s.split('.')\<close>, \<^verbatim>\<open>parts.join('.')\<close>, \<^verbatim>\<open>s.startsWith(p)\<close> and
  \<^verbatim>\<open>s.includes(p)\<close>.
\<close>

text \<open>\<^verbatim>\<open>s.split('.')\<close>: the empty string splits into one empty segment.\<close>

fun split_dot :: "string \<Rightarrow> string list" where
  "split_dot [] = [[]]"
| "split_dot (c # cs) =
     (if c = CHR ''.'' then [] # split_dot cs
      else (case split_dot cs of
              [] \<Rightarrow> [[c]]
            | p # ps \<Rightarrow> (c # p) # ps))"

text \<open>\<^verbatim>\<open>parts.join('.')\<close>: the empty array joins to the empty string.\<close>

fun join_dot :: "string list \<Rightarrow> string" where
  "join_dot [] = []"
| "join_dot [p] = p"
| "join_dot (p # q # ps) = p @ ''.'' @ join_dot (q # ps)"

fun startsWith :: "string \<Rightarrow> string \<Rightarrow> bool" where
  "startsWith s [] = True"
| "startsWith [] (p # ps) = False"
| "startsWith (c # cs) (p # ps) = (c = p \<and> startsWith cs ps)"

text \<open>\<^verbatim>\<open>s.includes(p)\<close>: \<open>p\<close> starts at some position of \<open>s\<close>.\<close>

fun str_includes :: "string \<Rightarrow> string \<Rightarrow> bool" where
  "str_includes [] p = (p = [])"
| "str_includes (c # cs) p = (startsWith (c # cs) p \<or> str_includes cs p)"

section \<open>Least common ancestor and transition sequences\<close>

text \<open>
  The loop of \<^verbatim>\<open>findLCA\<close>: it walks both segment arrays together, extends
  \<^verbatim>\<open>commonPath\<close> while the segments agree and breaks at the first difference. An empty
  \<^verbatim>\<open>commonPath\<close> is falsy, so the next segment then replaces it.
\<close>

fun findLCA_loop :: "string \<Rightarrow> string list \<Rightarrow> string list \<Rightarrow> string" where
  "findLCA_loop commonPath (p # ps) (q # qs) =
     (if p = q
      then findLCA_loop (if commonPath \<noteq> [] then commonPath @ ''.'' @ p else p) ps qs
      else commonPath)"
| "findLCA_loop commonPath _ _ = commonPath"

definition findLCA :: "string \<Rightarrow> string \<Rightarrow> string" where
  "findLCA state1Path state2Path =
     findLCA_loop [] (split_dot state1Path) (split_dot state2Path)"

lemma join_split_dot: "join_dot (split_dot s) = s"
proof (induction s)
  case Nil
  show ?case by simp
next
  case (Cons c cs)
  show ?case
  proof (cases "split_dot cs")
    case Nil
    with Cons show ?thesis by simp
  next
    case (Cons p ps)
    with Cons.IH show ?thesis by (cases ps) auto
  qed
qed

lemma split_dot_not_Nil: "split_dot s \<noteq> []"
  by (induction s) (auto split: list.splits)

lemma length_join_butlast:
  "ps \<noteq> [] \<Longrightarrow> join_dot ps \<noteq> [] \<Longrightarrow> length (join_dot (butlast ps)) < length (join_dot ps)"
proof (induction ps rule: join_dot.induct)
  case 1
  then show ?case by simp
next
  case (2 p)
  then show ?case by simp
next
  case (3 p q ps)
  show ?case
  proof (cases ps)
    case Nil
    then show ?thesis by simp
  next
    case (Cons r rs)
    with 3 show ?thesis by auto
  qed
qed

lemma pop_shorter:
  "currentPath \<noteq> [] \<Longrightarrow>
   length (join_dot (butlast (split_dot currentPath))) < length currentPath"
  using length_join_butlast [of "split_dot currentPath"]
  by (simp add: join_split_dot split_dot_not_Nil)

text \<open>
  The exit loop of \<^verbatim>\<open>calculateTransitionSequence\<close>: while \<^verbatim>\<open>currentPath\<close> is
  non-empty and differs from the LCA, push it and drop its last segment
  (\<^verbatim>\<open>parts.pop()\<close> on the split path, joined again).
\<close>

function exit_loop :: "string \<Rightarrow> string \<Rightarrow> string list \<Rightarrow> string list" where
  "exit_loop lca currentPath exitSequence =
     (if currentPath \<noteq> [] \<and> currentPath \<noteq> lca
      then exit_loop lca (join_dot (butlast (split_dot currentPath)))
             (exitSequence @ [currentPath])
      else exitSequence)"
  by pat_completeness auto
termination
  by (relation "measure (\<lambda>(lca, currentPath, exitSequence). length currentPath)")
     (auto simp: pop_shorter)

declare exit_loop.simps [simp del]

record TransitionSequence =
  exitSequence :: "string list"
  entrySequence :: "string list"
  lca :: string

definition calculateTransitionSequence :: "string \<Rightarrow> string \<Rightarrow> TransitionSequence" where
  "calculateTransitionSequence fromPath toPath =
     (let lca = findLCA fromPath toPath;
          exitSequence = exit_loop lca fromPath [];
          targetParts = split_dot toPath;
          lcaParts = (if lca \<noteq> [] then split_dot lca else []);
          entrySequence = map (\<lambda>i. join_dot (take (i + 1) targetParts))
                            [length lcaParts ..< length targetParts]
      in \<lparr>exitSequence = exitSequence, entrySequence = entrySequence, lca = lca\<rparr>)"

subsection \<open>The LCA is the longest common dotted prefix\<close>

text \<open>
  A fully-qualified dotted path: every segment between the dots is non-empty (the path
  of a state whose ancestors and itself all have names).
\<close>

definition qualified_path :: "string \<Rightarrow> bool" where
  "qualified_path s = ([] \<notin> set (split_dot s))"

lemma split_dot_dotfree: "p \<in> set (split_dot s) \<Longrightarrow> CHR ''.'' \<notin> set p"
  by (induction s arbitrary: p) (auto split: list.splits if_splits)

lemma split_dot_append_dotfree:
  "CHR ''.'' \<notin> set p \<Longrightarrow> split_dot (p @ CHR ''.'' # s) = p # split_dot s"
  by (induction p) (auto split: list.splits)

lemma split_dot_dotfree_id: "CHR ''.'' \<notin> set p \<Longrightarrow> split_dot p = [p]"
  by (induction p) (auto split: list.splits)

lemma split_join_dot:
  "ps \<noteq> [] \<Longrightarrow> \<forall>p\<in>set ps. CHR ''.'' \<notin> set p \<Longrightarrow> split_dot (join_dot ps) = ps"
  by (induction ps rule: join_dot.induct) (auto simp: split_dot_dotfree_id split_dot_append_dotfree)

lemma join_dot_snoc: "ps \<noteq> [] \<Longrightarrow> join_dot (ps @ [p]) = join_dot ps @ ''.'' @ p"
  by (induction ps rule: join_dot.induct) auto

lemma join_dot_eq_Nil: "[] \<notin> set ps \<Longrightarrow> join_dot ps = [] \<longleftrightarrow> ps = []"
  by (induction ps rule: join_dot.induct) auto

lemma findLCA_loop_eq:
  "[] \<notin> set pre \<Longrightarrow> [] \<notin> set ps \<Longrightarrow>
   findLCA_loop (join_dot pre) ps qs = join_dot (pre @ longest_common_prefix ps qs)"
proof (induction ps qs arbitrary: pre rule: longest_common_prefix.induct)
  case (1 x xs y ys)
  show ?case
  proof (cases "x = y")
    case True
    have IH: "findLCA_loop (join_dot (pre @ [x])) xs ys =
          join_dot ((pre @ [x]) @ longest_common_prefix xs ys)"
      using 1 True by (intro "1.IH") auto
    show ?thesis
    proof (cases "pre = []")
      case True
      with IH \<open>x = y\<close> show ?thesis by simp
    next
      case False
      then have "join_dot pre \<noteq> []" using 1(2) by (simp add: join_dot_eq_Nil)
      with IH \<open>x = y\<close> False show ?thesis by (simp add: join_dot_snoc)
    qed
  next
    case False
    then show ?thesis by simp
  qed
qed simp_all

lemma join_dot_inj:
  assumes "ps \<noteq> []" "qs \<noteq> []"
    and "\<forall>p\<in>set ps. CHR ''.'' \<notin> set p" and "\<forall>p\<in>set qs. CHR ''.'' \<notin> set p"
    and "join_dot ps = join_dot qs"
  shows "ps = qs"
  using assms by (metis split_join_dot)

lemma exit_loop_prefixes:
  assumes ps: "[] \<notin> set ps" "\<forall>p\<in>set ps. CHR ''.'' \<notin> set p"
    and c: "c = take (length c) ps"
  shows "length c \<le> k \<Longrightarrow> k \<le> length ps \<Longrightarrow>
     exit_loop (join_dot c) (join_dot (take k ps)) acc =
     acc @ map (\<lambda>j. join_dot (take j ps)) (rev [Suc (length c) ..< Suc k])"
proof (induction k arbitrary: acc)
  case 0
  then have "c = []" by simp
  then show ?case by (simp add: exit_loop.simps)
next
  case (Suc k)
  show ?case
  proof (cases "length c = Suc k")
    case True
    then have "take (Suc k) ps = c" using c by simp
    then show ?thesis using True by (simp add: exit_loop.simps)
  next
    case False
    with Suc.prems have le: "length c \<le> k" by simp
    from Suc.prems have ne: "take (Suc k) ps \<noteq> []" by auto
    have sub: "set (take (Suc k) ps) \<subseteq> set ps" by (rule set_take_subset)
    have nonempty: "join_dot (take (Suc k) ps) \<noteq> []"
      using ne sub ps(1) join_dot_eq_Nil [of "take (Suc k) ps"] by auto
    have df: "\<forall>p\<in>set (take (Suc k) ps). CHR ''.'' \<notin> set p"
      using sub ps(2) by auto
    have neq: "join_dot (take (Suc k) ps) \<noteq> join_dot c"
    proof
      assume eq: "join_dot (take (Suc k) ps) = join_dot c"
      with nonempty have "c \<noteq> []" by auto
      moreover have "\<forall>p\<in>set c. CHR ''.'' \<notin> set p"
        using c ps(2) by (metis in_set_takeD)
      ultimately have "take (Suc k) ps = c"
        using join_dot_inj [OF ne _ df _ eq] by simp
      then have "length c = Suc k" using Suc.prems by auto
      with False show False by simp
    qed
    have pop: "join_dot (butlast (split_dot (join_dot (take (Suc k) ps)))) = join_dot (take k ps)"
      using Suc.prems by (simp add: split_join_dot [OF ne df] butlast_take)
    have "exit_loop (join_dot c) (join_dot (take (Suc k) ps)) acc =
          exit_loop (join_dot c) (join_dot (take k ps)) (acc @ [join_dot (take (Suc k) ps)])"
      using nonempty neq by (subst exit_loop.simps) (simp add: pop)
    also have "\<dots> = (acc @ [join_dot (take (Suc k) ps)]) @
        map (\<lambda>j. join_dot (take j ps)) (rev [Suc (length c) ..< Suc k])"
      using le Suc.prems by (intro Suc.IH) auto
    finally show ?thesis using le by simp
  qed
qed

text \<open>
  Claim C3. For two fully-qualified dotted paths, \<^verbatim>\<open>findLCA\<close> is the longest common
  prefix of their segment lists, joined with dots; the exit sequence lists the prefixes
  of the source path that are strictly longer than the LCA, innermost first, and the
  entry sequence lists the prefixes of the target path that are strictly longer than the
  LCA, outermost first and ending with the target itself. The witness is the pair
  \<^verbatim>\<open>On.Operand1\<close>, \<^verbatim>\<open>On.Operand2\<close>.
\<close>

theorem calculateTransitionSequence_prefixes:
  assumes "qualified_path fromPath" and "qualified_path toPath"
  shows "calculateTransitionSequence fromPath toPath =
     (let ps = split_dot fromPath; qs = split_dot toPath;
          c = longest_common_prefix ps qs
      in \<lparr>exitSequence = map (\<lambda>k. join_dot (take k ps)) (rev [Suc (length c) ..< Suc (length ps)]),
          entrySequence = map (\<lambda>k. join_dot (take k qs)) [Suc (length c) ..< Suc (length qs)],
          lca = join_dot c\<rparr>)"
proof -
  define ps where "ps = split_dot fromPath"
  define qs where "qs = split_dot toPath"
  define c where "c = longest_common_prefix ps qs"
  have ps: "[] \<notin> set ps" "\<forall>p\<in>set ps. CHR ''.'' \<notin> set p"
    using assms(1) by (auto simp: ps_def qualified_path_def dest: split_dot_dotfree)
  have cp: "prefix c ps" unfolding c_def by (rule longest_common_prefix_prefix1)
  then have ctake: "c = take (length c) ps" by (auto simp: prefix_def)
  have clen: "length c \<le> length ps" using cp by (rule prefix_length_le)
  have lca: "findLCA fromPath toPath = join_dot c"
    using findLCA_loop_eq [of "[]" ps qs] ps(1) by (simp add: findLCA_def ps_def qs_def c_def)
  have "exit_loop (join_dot c) (join_dot (take (length ps) ps)) [] =
        [] @ map (\<lambda>j. join_dot (take j ps)) (rev [Suc (length c) ..< Suc (length ps)])"
    using ps ctake clen by (intro exit_loop_prefixes) auto
  then have ex: "exit_loop (join_dot c) fromPath [] =
        map (\<lambda>j. join_dot (take j ps)) (rev [Suc (length c) ..< Suc (length ps)])"
    by (simp add: ps_def join_split_dot)
  have cset: "set c \<subseteq> set ps" using cp by (rule set_mono_prefix)
  have parts: "(if join_dot c \<noteq> [] then split_dot (join_dot c) else []) = c"
  proof (cases "c = []")
    case True
    then show ?thesis by simp
  next
    case False
    moreover have "[] \<notin> set c" using cset ps(1) by auto
    moreover have "\<forall>p\<in>set c. CHR ''.'' \<notin> set p" using cset ps(2) by auto
    ultimately show ?thesis by (simp add: join_dot_eq_Nil split_join_dot)
  qed
  have en: "map (\<lambda>i. join_dot (take (i + 1) qs)) [length c ..< length qs] =
        map (\<lambda>k. join_dot (take k qs)) [Suc (length c) ..< Suc (length qs)]"
    by (simp add: map_Suc_upt [symmetric] del: map_Suc_upt upt_Suc)
  show ?thesis
    unfolding calculateTransitionSequence_def Let_def lca parts ex
    by (simp only: en ps_def [symmetric] qs_def [symmetric] c_def [symmetric])
qed

theorem calculateTransitionSequence_prefixes_witness:
  "qualified_path ''On.Operand1'' \<and> qualified_path ''On.Operand2'' \<and>
   findLCA ''On.Operand1'' ''On.Operand2'' = ''On'' \<and>
   calculateTransitionSequence ''On.Operand1'' ''On.Operand2'' =
     \<lparr>exitSequence = [''On.Operand1''], entrySequence = [''On.Operand2''], lca = ''On''\<rparr>"
proof -
  have q1: "qualified_path ''On.Operand1''" by (simp add: qualified_path_def)
  have q2: "qualified_path ''On.Operand2''" by (simp add: qualified_path_def)
  have "calculateTransitionSequence ''On.Operand1'' ''On.Operand2'' =
     \<lparr>exitSequence = [''On.Operand1''], entrySequence = [''On.Operand2''], lca = ''On''\<rparr>"
    using calculateTransitionSequence_prefixes [OF q1 q2] by (simp add: Let_def upt_rec)
  moreover have "findLCA ''On.Operand1'' ''On.Operand2'' = ''On''"
    by (simp add: findLCA_def)
  ultimately show ?thesis using q1 q2 by simp
qed


section \<open>The state-machine model\<close>

text \<open>
  The interfaces of \<^verbatim>\<open>types/stateMachine\<close>. An optional field is an \<open>option\<close>. A
  \<^verbatim>\<open>State\<close> owns its children, so the type is a tree; the model has value semantics,
  which is the source's behaviour as long as no \<^verbatim>\<open>State\<close> or \<^verbatim>\<open>Transition\<close> object
  is shared between two places of the tree.
\<close>

record Transition =
  event :: string
  target :: string
  guard :: "string option"
  action :: "string option"
  isInternal :: "bool option"

datatype State = State
  (name: string)
  (parent: "string option")
  (entryActions: "string list")
  (exitActions: "string list")
  (transitions: "Transition list")
  (children: "State list")
  (isInitial: "bool option")
  (initialTransition: "Transition option")

record Parameter =
  param_type :: string
  param_name :: string

record Event =
  event_name :: string
  event_value :: string
  parameters :: "Parameter list option"

record DataMember =
  member_type :: string
  member_name :: string
  comment :: "string option"
  initialValue :: "string option"

datatype MachineType = QActive | QMsm | QHsm

record StateMachine =
  machine_name :: string
  machine_type :: MachineType
  priority :: "int option"
  stackSize :: "int option"
  events :: "Event list"
  states :: "State list"
  initialState :: string
  dataMembers :: "DataMember list"

text \<open>
  The template \<^verbatim>\<open>parentPath ? `${parentPath}.${name}` : name\<close>, which every pass
  uses to qualify a name (an empty string is falsy).
\<close>

definition dotted :: "string \<Rightarrow> string \<Rightarrow> string" where
  "dotted parentPath n = (if parentPath \<noteq> [] then parentPath @ ''.'' @ n else n)"

text \<open>All states of a forest in pre-order (\<^verbatim>\<open>collectStates\<close> of \<^verbatim>\<open>setupHierarchy\<close>).\<close>

fun collectStates :: "State list \<Rightarrow> State list" where
  "collectStates [] = []"
| "collectStates (State n par en ex ts ch ini it # ss) =
     State n par en ex ts ch ini it # collectStates ch @ collectStates ss"

section \<open>The hierarchical resolver\<close>

text \<open>
  \<^verbatim>\<open>HierarchicalStateParser.stateMap\<close> is a \<^verbatim>\<open>Map<string, State>\<close> of which the
  resolver only ever asks \<^verbatim>\<open>has(key)\<close>; the model keeps its key set. The map is a
  member of the resolver object and is never cleared, so \<^verbatim>\<open>buildStateMap\<close> takes the
  keys it starts from and returns the keys it ends with.
\<close>

fun buildStateMap_state :: "State \<Rightarrow> string \<Rightarrow> string set \<Rightarrow> string set"
  and buildStateMap :: "State list \<Rightarrow> string \<Rightarrow> string set \<Rightarrow> string set" where
  "buildStateMap_state (State n par en ex ts ch ini it) parentPath stateMap =
     (let fullPath = dotted parentPath n;
          stateMap1 = insert fullPath stateMap;
          stateMap2 = (if n \<notin> stateMap1 then insert n stateMap1 else stateMap1)
      in if length ch > 0 then buildStateMap ch fullPath stateMap2 else stateMap2)"
| "buildStateMap [] parentPath stateMap = stateMap"
| "buildStateMap (s # ss) parentPath stateMap =
     buildStateMap ss parentPath (buildStateMap_state s parentPath stateMap)"

text \<open>
  The loop of \<^verbatim>\<open>resolveTarget\<close> over the ancestor scopes, from \<^verbatim>\<open>i = pathParts.length\<close>
  down to \<^verbatim>\<open>0\<close>; it returns at the first candidate that is a key.
\<close>

fun resolve_loop :: "string set \<Rightarrow> string \<Rightarrow> string list \<Rightarrow> nat \<Rightarrow> string option" where
  "resolve_loop stateMap tgt pathParts i =
     (let basePath = join_dot (take i pathParts);
          candidatePath = dotted basePath tgt
      in if candidatePath \<in> stateMap then Some candidatePath
         else (case i of 0 \<Rightarrow> None | Suc j \<Rightarrow> resolve_loop stateMap tgt pathParts j))"

declare resolve_loop.simps [simp del]

definition resolveTarget :: "string set \<Rightarrow> string \<Rightarrow> string \<Rightarrow> string" where
  "resolveTarget stateMap tgt fromPath =
     (if tgt = ''[*]'' \<or> startsWith tgt ''[H'' then tgt
      else if tgt \<in> stateMap then tgt
      else
        (let pathParts = split_dot fromPath in
         case resolve_loop stateMap tgt pathParts (length pathParts) of
           Some candidatePath \<Rightarrow> candidatePath
         | None \<Rightarrow>
             (let parentPath = join_dot (butlast pathParts);
                  siblingPath = parentPath @ ''.'' @ tgt
              in if length pathParts > 1 \<and> siblingPath \<in> stateMap then siblingPath
                 else tgt)))"

definition resolve_transition :: "string set \<Rightarrow> string \<Rightarrow> Transition \<Rightarrow> Transition" where
  "resolve_transition stateMap currentPath t =
     t\<lparr>target := resolveTarget stateMap (target t) currentPath\<rparr>"

fun resolveTransitions_state :: "string set \<Rightarrow> State \<Rightarrow> string \<Rightarrow> State"
  and resolveTransitions :: "string set \<Rightarrow> State list \<Rightarrow> string \<Rightarrow> State list" where
  "resolveTransitions_state stateMap (State n par en ex ts ch ini it) parentPath =
     (let currentPath = dotted parentPath n
      in State n par en ex
           (map (resolve_transition stateMap currentPath) ts)
           (if length ch > 0 then resolveTransitions stateMap ch currentPath else ch)
           ini
           (map_option (resolve_transition stateMap currentPath) it))"
| "resolveTransitions stateMap [] parentPath = []"
| "resolveTransitions stateMap (s # ss) parentPath =
     resolveTransitions_state stateMap s parentPath # resolveTransitions stateMap ss parentPath"

text \<open>\<^verbatim>\<open>children.find(child => child.isInitial)\<close>: the flag is optional, absent is falsy.\<close>

definition initial_child :: "State list \<Rightarrow> State option" where
  "initial_child ch = find (\<lambda>child. isInitial child = Some True) ch"

fun setupInitialTransitions_state :: "State \<Rightarrow> State"
  and setupInitialTransitions :: "State list \<Rightarrow> State list" where
  "setupInitialTransitions_state (State n par en ex ts ch ini it) =
     State n par en ex ts
       (if length ch > 0 then setupInitialTransitions ch else ch)
       ini
       (if length ch > 0 \<and> it = None
        then (case initial_child ch of
                Some initialChild \<Rightarrow>
                  Some \<lparr>event = ''@Q_INIT_SIG'', target = name initialChild,
                        guard = None, action = None, isInternal = None\<rparr>
              | None \<Rightarrow>
                  Some \<lparr>event = ''@Q_INIT_SIG'', target = name (ch ! 0),
                        guard = None, action = None, isInternal = None\<rparr>)
        else it)"
| "setupInitialTransitions [] = []"
| "setupInitialTransitions (s # ss) =
     setupInitialTransitions_state s # setupInitialTransitions ss"

text \<open>
  \<^verbatim>\<open>parseHierarchicalStates\<close>: the three passes in the source's order. The result is
  the resolver's key set afterwards and the machine, whose states are the rewritten ones.
\<close>

definition parseHierarchicalStates ::
  "string set \<Rightarrow> StateMachine \<Rightarrow> string set \<times> StateMachine" where
  "parseHierarchicalStates stateMap stateMachine =
     (let stateMap1 = buildStateMap (states stateMachine) [] stateMap;
          resolved = resolveTransitions stateMap1 (states stateMachine) [];
          initialised = setupInitialTransitions resolved
      in (stateMap1, stateMachine\<lparr>states := initialised\<rparr>))"

section \<open>Properties of the resolver\<close>

subsection \<open>The key set\<close>

lemma buildStateMap_union:
  "buildStateMap sts pp K = K \<union> buildStateMap sts pp {}"
proof (induction sts arbitrary: pp K rule: collectStates.induct)
  case 1
  show ?case by simp
next
  case (2 n par en ex ts ch ini it ss)
  have a: "buildStateMap_state (State n par en ex ts ch ini it) pp K =
        K \<union> buildStateMap_state (State n par en ex ts ch ini it) pp {}" for K
    using "2.IH"(1) [of "dotted pp n" "insert n (insert (dotted pp n) K)"]
          "2.IH"(1) [of "dotted pp n" "insert n (insert (dotted pp n) {})"]
    by (auto simp: Let_def insert_absorb)
  show ?case
    using a [of K] "2.IH"(2) [of pp "buildStateMap_state (State n par en ex ts ch ini it) pp K"]
      "2.IH"(2) [of pp "buildStateMap_state (State n par en ex ts ch ini it) pp {}"]
    by auto
qed


lemma buildStateMap_mono: "K \<subseteq> buildStateMap sts pp K"
  using buildStateMap_union [of sts pp K] by auto

lemma buildStateMap_Cons_State:
  "buildStateMap (State n par en ex ts ch ini it # ss) pp K =
   buildStateMap ss pp (buildStateMap ch (dotted pp n) (insert n (insert (dotted pp n) K)))"
  by (cases ch) (auto simp: Let_def insert_absorb)

lemma names_in_buildStateMap:
  "s \<in> set (collectStates sts) \<Longrightarrow> name s \<in> buildStateMap sts pp K"
proof (induction sts arbitrary: pp K rule: collectStates.induct)
  case 1
  then show ?case by simp
next
  case (2 n par en ex ts ch ini it ss)
  let ?K1 = "insert n (insert (dotted pp n) K)"
  let ?K2 = "buildStateMap ch (dotted pp n) ?K1"
  from "2.prems" consider "s = State n par en ex ts ch ini it"
    | "s \<in> set (collectStates ch)" | "s \<in> set (collectStates ss)" by auto
  then show ?case
  proof cases
    case 1
    have "n \<in> ?K2" using buildStateMap_mono [of ?K1 ch "dotted pp n"] by auto
    then have "n \<in> buildStateMap ss pp ?K2" using buildStateMap_mono [of ?K2 ss pp] by auto
    with 1 show ?thesis by (simp only: buildStateMap_Cons_State State.sel)
  next
    case 2
    then have "name s \<in> ?K2" by (rule "2.IH"(1))
    then have "name s \<in> buildStateMap ss pp ?K2" using buildStateMap_mono [of ?K2 ss pp] by auto
    then show ?thesis by (simp only: buildStateMap_Cons_State)
  next
    case 3
    then have "name s \<in> buildStateMap ss pp ?K2" by (rule "2.IH"(2))
    then show ?thesis by (simp only: buildStateMap_Cons_State)
  qed
qed

lemma resolveTransitions_Cons_State:
  "resolveTransitions K (State n par en ex ts ch ini it # ss) pp =
   State n par en ex (map (resolve_transition K (dotted pp n)) ts)
     (resolveTransitions K ch (dotted pp n)) ini
     (map_option (resolve_transition K (dotted pp n)) it) # resolveTransitions K ss pp"
  by (cases ch) (auto simp: Let_def)

lemma setupInitialTransitions_Cons_State:
  "setupInitialTransitions (State n par en ex ts ch ini it # ss) =
   State n par en ex ts (setupInitialTransitions ch) ini
     (if ch \<noteq> [] \<and> it = None
      then Some \<lparr>event = ''@Q_INIT_SIG'',
                 target = name (case initial_child ch of Some c \<Rightarrow> c | None \<Rightarrow> ch ! 0),
                 guard = None, action = None, isInternal = None\<rparr>
      else it) # setupInitialTransitions ss"
  by (cases ch) (auto split: option.splits)

lemma buildStateMap_resolveTransitions:
  "buildStateMap (resolveTransitions K' sts pp') pp K = buildStateMap sts pp K"
proof (induction sts arbitrary: pp pp' K rule: collectStates.induct)
  case 1
  show ?case by simp
next
  case (2 n par en ex ts ch ini it ss)
  show ?case
    by (simp only: resolveTransitions_Cons_State buildStateMap_Cons_State "2.IH")
qed

lemma buildStateMap_setupInitialTransitions:
  "buildStateMap (setupInitialTransitions sts) pp K = buildStateMap sts pp K"
proof (induction sts arbitrary: pp K rule: collectStates.induct)
  case 1
  show ?case by simp
next
  case (2 n par en ex ts ch ini it ss)
  show ?case
    by (simp only: setupInitialTransitions_Cons_State buildStateMap_Cons_State "2.IH")
qed

lemma buildStateMap_idem:
  "buildStateMap sts pp (buildStateMap sts pp K) = buildStateMap sts pp K"
  using buildStateMap_union [of sts pp "buildStateMap sts pp K"] buildStateMap_union [of sts pp K]
  by auto

lemma resolve_loop_in: "resolve_loop K t parts i = Some c \<Longrightarrow> c \<in> K"
  by (induction i) (subst (asm) resolve_loop.simps, auto simp: Let_def split: if_splits)+

lemma resolveTarget_key: "t \<in> K \<Longrightarrow> resolveTarget K t p = t"
  by (simp add: resolveTarget_def)

lemma resolveTarget_cases:
  "resolveTarget K t p = t \<or> resolveTarget K t p \<in> K"
  by (auto simp: resolveTarget_def Let_def dest: resolve_loop_in split: option.splits)

lemma resolveTarget_idem:
  "resolveTarget K (resolveTarget K t p) p = resolveTarget K t p"
  using resolveTarget_cases [of K t p] by (auto simp: resolveTarget_key)

lemma resolve_transition_idem:
  "resolve_transition K p (resolve_transition K p t) = resolve_transition K p t"
  by (simp add: resolve_transition_def resolveTarget_idem)


lemma roots_in_collectStates: "set sts \<subseteq> set (collectStates sts)"
  by (induction sts rule: collectStates.induct) auto

lemma collectStates_children:
  "s \<in> set (collectStates sts) \<Longrightarrow> set (collectStates (children s)) \<subseteq> set (collectStates sts)"
  by (induction sts rule: collectStates.induct) auto

text \<open>Two states agree on what the default-child choice reads: name and flag.\<close>

definition same_label :: "State \<Rightarrow> State \<Rightarrow> bool" where
  "same_label c c' = (name c' = name c \<and> isInitial c' = isInitial c)"

lemma resolveTransitions_same_label:
  "list_all2 same_label sts (resolveTransitions K sts pp)"
proof (induction sts arbitrary: pp rule: collectStates.induct)
  case 1
  show ?case by simp
next
  case (2 n par en ex ts ch ini it ss)
  show ?case
    by (simp only: resolveTransitions_Cons_State list_all2_Cons same_label_def State.sel
          simp_thms) (use "2.IH"(2) in \<open>simp only: same_label_def\<close>)
qed

lemma setupInitialTransitions_same_label:
  "list_all2 same_label sts (setupInitialTransitions sts)"
proof (induction sts rule: collectStates.induct)
  case 1
  show ?case by simp
next
  case (2 n par en ex ts ch ini it ss)
  show ?case
    by (simp only: setupInitialTransitions_Cons_State list_all2_Cons same_label_def State.sel
          simp_thms) (use "2.IH"(2) in \<open>simp only: same_label_def\<close>)
qed

text \<open>
  The child \<^verbatim>\<open>setupInitialTransitions\<close> picks for a non-empty child list: the first
  flagged one, and the first child when none is flagged.
\<close>

definition default_child :: "State list \<Rightarrow> State" where
  "default_child ch = (case initial_child ch of Some c \<Rightarrow> c | None \<Rightarrow> ch ! 0)"

lemma initial_child_same_label:
  "list_all2 same_label ch ch' \<Longrightarrow>
   map_option name (initial_child ch') = map_option name (initial_child ch)"
  by (induction ch ch' rule: list_all2_induct) (auto simp: initial_child_def same_label_def)

lemma default_child_same_label:
  assumes "list_all2 same_label ch ch'" and "ch \<noteq> []"
  shows "name (default_child ch') = name (default_child ch)"
proof -
  from assms obtain c cs c' cs' where "ch = c # cs" "ch' = c' # cs'" "same_label c c'"
    by (cases ch; cases ch') auto
  then have "name (ch' ! 0) = name (ch ! 0)" by (simp add: same_label_def)
  with initial_child_same_label [OF assms(1)] show ?thesis
    by (auto simp: default_child_def split: option.splits)
qed

lemma default_child_in: "ch \<noteq> [] \<Longrightarrow> default_child ch \<in> set ch"
  by (auto simp: default_child_def initial_child_def find_Some_iff split: option.splits)

lemma setupInitialTransitions_Cons_default:
  "setupInitialTransitions (State n par en ex ts ch ini it # ss) =
   State n par en ex ts (setupInitialTransitions ch) ini
     (if ch \<noteq> [] \<and> it = None
      then Some \<lparr>event = ''@Q_INIT_SIG'', target = name (default_child ch),
                 guard = None, action = None, isInternal = None\<rparr>
      else it) # setupInitialTransitions ss"
  by (simp only: setupInitialTransitions_Cons_State default_child_def)

lemma resolveTransitions_Nil_iff: "resolveTransitions K sts pp = [] \<longleftrightarrow> sts = []"
  using resolveTransitions_same_label [of sts K pp] by (auto dest: list_all2_lengthD)

lemma setupInitialTransitions_Nil_iff: "setupInitialTransitions sts = [] \<longleftrightarrow> sts = []"
  using setupInitialTransitions_same_label [of sts] by (auto dest: list_all2_lengthD)

subsection \<open>A second run changes nothing\<close>

lemma setupInitialTransitions_idem:
  "setupInitialTransitions (setupInitialTransitions sts) = setupInitialTransitions sts"
proof (induction sts rule: collectStates.induct)
  case 1
  show ?case by simp
next
  case (2 n par en ex ts ch ini it ss)
  show ?case
    by (simp add: setupInitialTransitions_Cons_default "2.IH" setupInitialTransitions_Nil_iff
        del: setupInitialTransitions.simps)
qed

lemma resolve_setup_resolve:
  "\<forall>s\<in>set (collectStates sts). name s \<in> K \<Longrightarrow>
   resolveTransitions K (setupInitialTransitions (resolveTransitions K sts pp)) pp =
   setupInitialTransitions (resolveTransitions K sts pp)"
proof (induction sts arbitrary: pp rule: collectStates.induct)
  case 1
  show ?case by simp
next
  case (2 n par en ex ts ch ini it ss)
  let ?cp = "dotted pp n"
  let ?ch = "resolveTransitions K ch ?cp"
  have ch: "\<forall>s\<in>set (collectStates ch). name s \<in> K" and ss: "\<forall>s\<in>set (collectStates ss). name s \<in> K"
    using "2.prems" by auto
  have dflt: "resolveTarget K (name (default_child ?ch)) ?cp = name (default_child ?ch)" if "ch \<noteq> []"
  proof -
    have "name (default_child ?ch) = name (default_child ch)"
      using resolveTransitions_same_label [of ch K ?cp] that by (rule default_child_same_label)
    moreover have "default_child ch \<in> set (collectStates ch)"
      using default_child_in [OF that] roots_in_collectStates [of ch] by auto
    ultimately have "name (default_child ?ch) \<in> K" using ch by auto
    then show ?thesis by (rule resolveTarget_key)
  qed
  show ?case
    by (cases it)
       (auto simp add: resolveTransitions_Cons_State setupInitialTransitions_Cons_default
          "2.IH"(1) [OF ch] "2.IH"(2) [OF ss] resolve_transition_idem resolveTransitions_Nil_iff
          resolve_transition_def dflt resolveTarget_idem
        simp del: resolveTransitions.simps setupInitialTransitions.simps)
qed

text \<open>
  Claim C4. Running \<^verbatim>\<open>parseHierarchicalStates\<close> again on the machine it returned gives
  the same machine and the same key set: with the same resolver object, whatever keys
  its map held before the first run, and also with two fresh resolver objects.
\<close>

theorem parseHierarchicalStates_idempotent:
  "parseHierarchicalStates (fst (parseHierarchicalStates stateMap sm))
       (snd (parseHierarchicalStates stateMap sm)) = parseHierarchicalStates stateMap sm
   \<and> parseHierarchicalStates {} (snd (parseHierarchicalStates {} sm)) =
       parseHierarchicalStates {} sm"
proof -
  have run: "parseHierarchicalStates K0 (snd (parseHierarchicalStates K sm)) = parseHierarchicalStates K sm"
    if K0: "buildStateMap (states sm) [] K0 = buildStateMap (states sm) [] K" for K0 K
  proof -
    let ?K1 = "buildStateMap (states sm) [] K"
    let ?z = "setupInitialTransitions (resolveTransitions ?K1 (states sm) [])"
    have names: "\<forall>s\<in>set (collectStates (states sm)). name s \<in> ?K1"
      by (simp add: names_in_buildStateMap)
    have "buildStateMap ?z [] K0 = ?K1"
      by (simp add: buildStateMap_setupInitialTransitions buildStateMap_resolveTransitions K0)
    moreover have "setupInitialTransitions (resolveTransitions ?K1 ?z []) = ?z"
      by (simp add: resolve_setup_resolve [OF names] setupInitialTransitions_idem)
    ultimately show ?thesis
      by (simp add: parseHierarchicalStates_def Let_def)
  qed
  have f: "fst (parseHierarchicalStates stateMap sm) = buildStateMap (states sm) [] stateMap"
    by (simp add: parseHierarchicalStates_def Let_def)
  have "parseHierarchicalStates (buildStateMap (states sm) [] stateMap)
          (snd (parseHierarchicalStates stateMap sm)) = parseHierarchicalStates stateMap sm"
    by (rule run) (rule buildStateMap_idem)
  moreover have "parseHierarchicalStates {} (snd (parseHierarchicalStates {} sm)) =
       parseHierarchicalStates {} sm"
    by (rule run) simp
  ultimately show ?thesis by (simp only: f simp_thms)
qed


subsection \<open>The order of the lookups\<close>




text \<open>
  The machine of the tie-break scenario: a root state \<^verbatim>\<open>A\<close> with children \<^verbatim>\<open>B\<close> and
  \<^verbatim>\<open>C\<close>, a second root state \<^verbatim>\<open>B\<close>, and transitions with the bare target \<^verbatim>\<open>B\<close> owned
  by \<^verbatim>\<open>A.B\<close> and by \<^verbatim>\<open>A.C\<close>.
\<close>

definition tie_break_machine :: StateMachine where
  "tie_break_machine =
     \<lparr>machine_name = ''M'', machine_type = QActive, priority = None, stackSize = None,
      events = [],
      states =
        [State ''A'' None [] [] []
           [State ''B'' (Some ''A'') [] []
              [\<lparr>event = ''AGAIN'', target = ''B'', guard = None, action = None,
                isInternal = None\<rparr>] [] None None,
            State ''C'' (Some ''A'') [] []
              [\<lparr>event = ''GO'', target = ''B'', guard = None, action = None,
                isInternal = None\<rparr>] [] None None]
           None None,
         State ''B'' None [] [] [] [] None None],
      initialState = ''A'', dataMembers = []\<rparr>"



subsection \<open>Default initial transitions\<close>

text \<open>
  What the resolver guarantees for a state \<open>s\<close> of the input and the state \<open>s'\<close> at the
  same place of the output.
\<close>

definition initial_synthesised :: "State \<Rightarrow> State \<Rightarrow> bool" where
  "initial_synthesised s s' =
     (name s' = name s \<and>
      (children s \<noteq> [] \<and> initialTransition s = None \<longrightarrow>
       initialTransition s' =
         Some \<lparr>event = ''@Q_INIT_SIG'', target = name (default_child (children s)),
               guard = None, action = None, isInternal = None\<rparr>))"

lemma resolver_initial_synthesised:
  "list_all2 initial_synthesised (collectStates sts)
     (collectStates (setupInitialTransitions (resolveTransitions K sts pp)))"
proof (induction sts arbitrary: pp rule: collectStates.induct)
  case 1
  show ?case by simp
next
  case (2 n par en ex ts ch ini it ss)
  let ?ch = "resolveTransitions K ch (dotted pp n)"
  have "ch \<noteq> [] \<Longrightarrow> name (default_child ?ch) = name (default_child ch)"
    using resolveTransitions_same_label [of ch K "dotted pp n"] by (rule default_child_same_label)
  then have hd: "initial_synthesised (State n par en ex ts ch ini it)
     (State n par en ex (map (resolve_transition K (dotted pp n)) ts)
        (setupInitialTransitions ?ch) ini
        (if ?ch \<noteq> [] \<and> map_option (resolve_transition K (dotted pp n)) it = None
         then Some \<lparr>event = ''@Q_INIT_SIG'', target = name (default_child ?ch),
                 guard = None, action = None, isInternal = None\<rparr>
         else map_option (resolve_transition K (dotted pp n)) it))"
    by (simp add: initial_synthesised_def resolveTransitions_Nil_iff)
  show ?case
    unfolding resolveTransitions_Cons_State setupInitialTransitions_Cons_default collectStates.simps
    using hd "2.IH"(1) [of "dotted pp n"] "2.IH"(2) [of pp]
    by (intro list_all2_appendI list_all2_Cons [THEN iffD2] conjI)
qed

text \<open>
  Claim C5. A composite state that has no initial transition when the resolver runs has
  one afterwards: its event is \<^verbatim>\<open>@Q_INIT_SIG\<close> and its target is the name of the first
  child flagged \<^verbatim>\<open>isInitial\<close>, or of the first child when no child is flagged. States
  are addressed by their position in the pre-order listing of the tree, which the resolver
  does not change. The witness is a state with the children \<^verbatim>\<open>X\<close>, \<^verbatim>\<open>Y\<close>, \<^verbatim>\<open>Z\<close>.
\<close>

theorem default_initial_child:
  assumes "i < length (collectStates (states sm))"
    and "collectStates (states sm) ! i = s"
    and "children s \<noteq> []" and "initialTransition s = None"
  shows "\<exists>s'. collectStates (states (snd (parseHierarchicalStates stateMap sm))) ! i = s' \<and>
     name s' = name s \<and>
     initialTransition s' =
       Some \<lparr>event = ''@Q_INIT_SIG'',
             target = (case find (\<lambda>child. isInitial child = Some True) (children s) of
                         Some initialChild \<Rightarrow> name initialChild
                       | None \<Rightarrow> name (children s ! 0)),
             guard = None, action = None, isInternal = None\<rparr>"
proof -
  let ?out = "collectStates (states (snd (parseHierarchicalStates stateMap sm)))"
  have "list_all2 initial_synthesised (collectStates (states sm)) ?out"
    by (simp add: parseHierarchicalStates_def Let_def resolver_initial_synthesised)
  from list_all2_nthD [OF this assms(1)] assms(2) have "initial_synthesised s (?out ! i)"
    by simp
  with assms(3,4) show ?thesis
    by (auto simp: initial_synthesised_def default_child_def initial_child_def split: option.splits)
qed

definition xyz_machine :: StateMachine where
  "xyz_machine =
     \<lparr>machine_name = ''M'', machine_type = QHsm, priority = None, stackSize = None,
      events = [],
      states =
        [State ''P'' None [] [] []
           [State ''X'' (Some ''P'') [] [] [] [] None None,
            State ''Y'' (Some ''P'') [] [] [] [] None None,
            State ''Z'' (Some ''P'') [] [] [] [] None None]
           None None],
      initialState = ''P'', dataMembers = []\<rparr>"

theorem default_initial_child_witness:
  "map initialTransition (collectStates (states (snd (parseHierarchicalStates {} xyz_machine)))) =
     [Some \<lparr>event = ''@Q_INIT_SIG'', target = ''X'', guard = None, action = None,
            isInternal = None\<rparr>, None, None, None]"
proof -
  have "0 < length (collectStates (states xyz_machine))" by (simp add: xyz_machine_def)
  from default_initial_child [OF this refl, of "{}"]
  have "initialTransition (collectStates (states (snd (parseHierarchicalStates {} xyz_machine))) ! 0) =
     Some \<lparr>event = ''@Q_INIT_SIG'', target = ''X'', guard = None, action = None,
           isInternal = None\<rparr>"
    by (simp add: xyz_machine_def)
  then show ?thesis
    by (simp add: parseHierarchicalStates_def xyz_machine_def Let_def dotted_def)
qed

theorem parseHierarchicalStates_idempotent_witness:
  "parseHierarchicalStates (fst (parseHierarchicalStates {} tie_break_machine))
       (snd (parseHierarchicalStates {} tie_break_machine)) =
     parseHierarchicalStates {} tie_break_machine"
  using parseHierarchicalStates_idempotent [of "{}" tie_break_machine] by simp


section \<open>The validator\<close>

datatype Severity = Error | Warning | Info

record Location =
  state :: "string option"
  transition :: "string option"
  line :: "nat option"

record ValidationError =
  severity :: Severity
  message :: string
  location :: "Location option"

text \<open>
  \<^verbatim>\<open>addError\<close> pushes onto \<^verbatim>\<open>this.errors\<close>, which nothing else writes and nothing reads
  before \<^verbatim>\<open>validate\<close> returns it. Every pass is therefore modelled by the list of the
  diagnostics it pushes, in the order it pushes them, and \<^verbatim>\<open>validate\<close> concatenates them.
  \<^verbatim>\<open>at_state\<close> and \<^verbatim>\<open>at_transition\<close> are the two location objects the passes build.
\<close>

definition at_state :: "string \<Rightarrow> Location option" where
  "at_state p = Some \<lparr>state = Some p, transition = None, line = None\<rparr>"

definition at_transition :: "string \<Rightarrow> string \<Rightarrow> Location option" where
  "at_transition p e = Some \<lparr>state = Some p, transition = Some e, line = None\<rparr>"

text \<open>The apostrophe that the messages put around a name.\<close>

abbreviation quote :: string where
  "quote \<equiv> [CHR 0x27]"

definition endsWith :: "string \<Rightarrow> string \<Rightarrow> bool" where
  "endsWith s p = startsWith (rev s) (rev p)"

definition is_upper :: "char \<Rightarrow> bool" where
  "is_upper c = (65 \<le> (of_char c :: nat) \<and> (of_char c :: nat) \<le> 90)"

definition is_lower :: "char \<Rightarrow> bool" where
  "is_lower c = (97 \<le> (of_char c :: nat) \<and> (of_char c :: nat) \<le> 122)"

definition is_digit :: "char \<Rightarrow> bool" where
  "is_digit c = (48 \<le> (of_char c :: nat) \<and> (of_char c :: nat) \<le> 57)"

text \<open>\<^verbatim>\<open>/^[A-Z][a-zA-Z0-9]*$/.test(name)\<close>\<close>

fun isValidStateName :: "string \<Rightarrow> bool" where
  "isValidStateName [] = False"
| "isValidStateName (c # cs) =
     (is_upper c \<and> list_all (\<lambda>d. is_lower d \<or> is_upper d \<or> is_digit d) cs)"

text \<open>\<^verbatim>\<open>/^[A-Z][A-Z0-9_]*$/.test(name)\<close>\<close>

fun isValidEventName :: "string \<Rightarrow> bool" where
  "isValidEventName [] = False"
| "isValidEventName (c # cs) =
     (is_upper c \<and> list_all (\<lambda>d. is_upper d \<or> is_digit d \<or> d = CHR ''_'') cs)"

definition isSpecialTarget :: "string \<Rightarrow> bool" where
  "isSpecialTarget tgt =
     (tgt = ''[*]'' \<or> startsWith tgt ''[H'' \<or> str_includes tgt ''History'')"

text \<open>\<^verbatim>\<open>findState\<close>: the first state with the name, children before later siblings.\<close>

fun findState :: "string \<Rightarrow> State list \<Rightarrow> State option" where
  "findState nm [] = None"
| "findState nm (State n par en ex ts ch ini it # ss) =
     (if n = nm then Some (State n par en ex ts ch ini it)
      else (case findState nm ch of
              Some found \<Rightarrow> Some found
            | None \<Rightarrow> findState nm ss))"

subsection \<open>Basic structure and duplicate names\<close>

text \<open>
  \<^verbatim>\<open>collectStateNames\<close>: the set \<^verbatim>\<open>names\<close> is one object shared by the whole walk, so
  it is passed in and handed back together with the diagnostics.
\<close>

fun collectStateNames_state ::
    "State \<Rightarrow> string set \<Rightarrow> string \<Rightarrow> string set \<times> ValidationError list"
  and collectStateNames ::
    "State list \<Rightarrow> string set \<Rightarrow> string \<Rightarrow> string set \<times> ValidationError list" where
  "collectStateNames_state (State n par en ex ts ch ini it) names namePrefix =
     (let fullName = dotted namePrefix n;
          dup = (if n \<in> names
                 then [\<lparr>severity = Error, message = ''Duplicate state name: '' @ n,
                        location = at_state fullName\<rparr>]
                 else []);
          names1 = insert n names
      in if length ch > 0
         then (case collectStateNames ch names1 fullName of
                 (names2, below) \<Rightarrow> (names2, dup @ below))
         else (names1, dup))"
| "collectStateNames [] names namePrefix = (names, [])"
| "collectStateNames (s # ss) names namePrefix =
     (case collectStateNames_state s names namePrefix of
        (names1, first) \<Rightarrow>
          (case collectStateNames ss names1 namePrefix of
             (names2, others) \<Rightarrow> (names2, first @ others)))"

definition validateBasicStructure :: "StateMachine \<Rightarrow> ValidationError list" where
  "validateBasicStructure stateMachine =
     (if machine_name stateMachine = [] \<or> machine_name stateMachine = ''StateMachine''
      then [\<lparr>severity = Warning, message = ''State machine should have a meaningful name'',
             location = None\<rparr>]
      else []) @
     (if initialState stateMachine = []
      then [\<lparr>severity = Error, message = ''State machine must have an initial state'',
             location = None\<rparr>]
      else []) @
     (if length (states stateMachine) = 0
      then [\<lparr>severity = Error, message = ''State machine must have at least one state'',
             location = None\<rparr>]
      else []) @
     snd (collectStateNames (states stateMachine) {} [])"

subsection \<open>States and their actions\<close>

definition validateActions :: "State \<Rightarrow> string \<Rightarrow> ValidationError list" where
  "validateActions st statePath =
     concat (map (\<lambda>action.
        if \<not> endsWith action '')'' \<and> \<not> endsWith action '';''
        then [\<lparr>severity = Warning,
               message = ''Action '' @ quote @ action @ quote @ '' should end with semicolon'',
               location = at_state statePath\<rparr>]
        else [])
       (entryActions st @ exitActions st))"

fun validateStates_state :: "State \<Rightarrow> string \<Rightarrow> ValidationError list"
  and validateStates :: "State list \<Rightarrow> string \<Rightarrow> ValidationError list" where
  "validateStates_state (State n par en ex ts ch ini it) parentPath =
     (let statePath = dotted parentPath n
      in (if \<not> isValidStateName n
          then [\<lparr>severity = Warning,
                 message = ''State name '' @ quote @ n @ quote @
                   '' should start with uppercase and use CamelCase'',
                 location = at_state statePath\<rparr>]
          else []) @
         (if length ch > 0 \<and> it = None
          then [\<lparr>severity = Error,
                 message = ''Composite state '' @ quote @ n @ quote @
                   '' must have an initial transition'',
                 location = at_state statePath\<rparr>]
          else []) @
         (if length ch = 0 \<and> it \<noteq> None
          then [\<lparr>severity = Warning,
                 message = ''State '' @ quote @ n @ quote @
                   '' has initial transition but no child states'',
                 location = at_state statePath\<rparr>]
          else []) @
         validateActions (State n par en ex ts ch ini it) statePath @
         (if length ch > 0 then validateStates ch statePath else []))"
| "validateStates [] parentPath = []"
| "validateStates (s # ss) parentPath =
     validateStates_state s parentPath @ validateStates ss parentPath"

subsection \<open>Reachability\<close>

text \<open>
  The calls \<^verbatim>\<open>traverseFromState\<close> makes for a state it has just marked: the target of
  every transition that is not internal (an absent flag is falsy), in order, then the
  target of the initial transition.
\<close>

definition successors :: "State \<Rightarrow> string list" where
  "successors st =
     map target (filter (\<lambda>t. isInternal t \<noteq> Some True) (transitions st)) @
     (case initialTransition st of Some t \<Rightarrow> [target t] | None \<Rightarrow> [])"

lemma findState_in:
  "findState nm sts = Some s \<Longrightarrow> s \<in> set (collectStates sts) \<and> name s = nm"
  by (induction sts rule: collectStates.induct) (auto split: if_splits option.splits)

text \<open>Every name a traversal of the forest can ask for, apart from the one it starts at.\<close>

definition all_targets :: "State list \<Rightarrow> string set" where
  "all_targets allStates = (\<Union>s\<in>set (collectStates allStates). set (successors s))"

lemma finite_all_targets: "finite (all_targets allStates)"
  by (simp add: all_targets_def)

lemma successors_in_all_targets:
  "findState nm allStates = Some s \<Longrightarrow> set (successors s) \<subseteq> all_targets allStates"
  by (auto simp: all_targets_def dest: findState_in)

text \<open>
  \<^verbatim>\<open>traverseFromState\<close> is recursive and writes the shared set \<^verbatim>\<open>visitedStates\<close>. The
  model keeps the calls that are still to be made in a list, the first one in front: a
  call for a name that is already visited returns at once; otherwise the name is marked,
  and if a state has that name the calls for its successors are made before the calls
  that were already waiting, which is the order in which the source's recursion makes
  them. The function is total: every step either shortens the list or marks a name that
  is among the finitely many pending names and targets of the forest.
\<close>

function traverse_pending :: "State list \<Rightarrow> string list \<Rightarrow> string set \<Rightarrow> string set" where
  "traverse_pending allStates [] visitedStates = visitedStates"
| "traverse_pending allStates (stateName # pending) visitedStates =
     (if stateName \<in> visitedStates then traverse_pending allStates pending visitedStates
      else (case findState stateName allStates of
              None \<Rightarrow> traverse_pending allStates pending (insert stateName visitedStates)
            | Some st \<Rightarrow>
                traverse_pending allStates (successors st @ pending)
                  (insert stateName visitedStates)))"
  by pat_completeness auto
termination
proof (relation "inv_image (less_than <*lex*> less_than)
    (\<lambda>(allStates, pending, visitedStates).
       (card ((set pending \<union> all_targets allStates) - visitedStates), length pending))",
    goal_cases)
  case 1
  show ?case by (intro wf_inv_image wf_lex_prod wf_less_than)
next
  case (2 allStates stateName pending visitedStates)
  then have "(insert stateName (set pending) \<union> all_targets allStates) - visitedStates =
      (set pending \<union> all_targets allStates) - visitedStates" by auto
  then show ?case by simp
next
  case (3 allStates stateName pending visitedStates)
  have "(set pending \<union> all_targets allStates) - insert stateName visitedStates \<subset>
      (insert stateName (set pending) \<union> all_targets allStates) - visitedStates"
    using 3(1) by auto
  then have "card ((set pending \<union> all_targets allStates) - insert stateName visitedStates) <
      card ((insert stateName (set pending) \<union> all_targets allStates) - visitedStates)"
    by (intro psubset_card_mono) (auto simp: finite_all_targets)
  then show ?case by simp
next
  case (4 allStates stateName pending visitedStates st)
  have "(set (successors st @ pending) \<union> all_targets allStates) - insert stateName visitedStates \<subset>
      (insert stateName (set pending) \<union> all_targets allStates) - visitedStates"
    using 4(1) successors_in_all_targets [OF 4(2)] by auto
  then have "card ((set (successors st @ pending) \<union> all_targets allStates) - insert stateName visitedStates) <
      card ((insert stateName (set pending) \<union> all_targets allStates) - visitedStates)"
    by (intro psubset_card_mono) (auto simp: finite_all_targets)
  then show ?case by simp
qed

definition traverseFromState :: "string \<Rightarrow> State list \<Rightarrow> string set \<Rightarrow> string set" where
  "traverseFromState stateName allStates visitedStates =
     traverse_pending allStates [stateName] visitedStates"

fun checkUnreachableStates_state :: "string set \<Rightarrow> State \<Rightarrow> string \<Rightarrow> ValidationError list"
  and checkUnreachableStates :: "string set \<Rightarrow> State list \<Rightarrow> string \<Rightarrow> ValidationError list" where
  "checkUnreachableStates_state visitedStates (State n par en ex ts ch ini it) parentPath =
     (let statePath = dotted parentPath n
      in (if n \<notin> visitedStates \<and> n \<noteq> ''[*]''
          then [\<lparr>severity = Warning,
                 message = ''State '' @ quote @ n @ quote @ '' is unreachable'',
                 location = at_state statePath\<rparr>]
          else []) @
         (if length ch > 0 then checkUnreachableStates visitedStates ch statePath else []))"
| "checkUnreachableStates visitedStates [] parentPath = []"
| "checkUnreachableStates visitedStates (s # ss) parentPath =
     checkUnreachableStates_state visitedStates s parentPath @
     checkUnreachableStates visitedStates ss parentPath"

text \<open>The set \<^verbatim>\<open>visitedStates\<close> after the traversal of \<^verbatim>\<open>checkReachability\<close>.\<close>

definition reached :: "StateMachine \<Rightarrow> string set" where
  "reached stateMachine =
     (if initialState stateMachine \<noteq> []
      then traverseFromState (initialState stateMachine) (states stateMachine) {}
      else {})"

definition checkReachability :: "StateMachine \<Rightarrow> ValidationError list" where
  "checkReachability stateMachine =
     checkUnreachableStates (reached stateMachine) (states stateMachine) []"

subsection \<open>Transitions\<close>

definition validateGuard :: "string \<Rightarrow> string \<Rightarrow> string \<Rightarrow> ValidationError list" where
  "validateGuard g statePath ev =
     (let openParens = length (filter (\<lambda>c. c = CHR ''('') g);
          closeParens = length (filter (\<lambda>c. c = CHR '')'') g)
      in (if openParens \<noteq> closeParens
          then [\<lparr>severity = Error, message = ''Unbalanced parentheses in guard: '' @ g,
                 location = at_transition statePath ev\<rparr>]
          else []) @
         (if str_includes g ''='' \<and> \<not> str_includes g ''=='' \<and>
             \<not> str_includes g ''<='' \<and> \<not> str_includes g ''>=''
          then [\<lparr>severity = Warning,
                 message = ''Possible assignment instead of comparison in guard: '' @ g,
                 location = at_transition statePath ev\<rparr>]
          else []))"

text \<open>
  The body of the loop over \<^verbatim>\<open>state.transitions\<close> for the transition at index \<open>i\<close>.
  \<^verbatim>\<open>states\<close> is the array the enclosing call of \<^verbatim>\<open>validateStateTransitions\<close> was given,
  and \<^verbatim>\<open>findState\<close> searches that array. \<^verbatim>\<open>t !== transition\<close> compares objects; the
  transitions of a state are distinct objects, so it is a comparison of indices.
\<close>

definition transition_diagnostics ::
  "State list \<Rightarrow> string \<Rightarrow> Transition list \<Rightarrow> nat \<Rightarrow> ValidationError list" where
  "transition_diagnostics sts statePath ts i =
     (let t = ts ! i
      in (if \<not> isSpecialTarget (target t) \<and> findState (target t) sts = None
          then [\<lparr>severity = Error,
                 message = ''Transition target '' @ quote @ target t @ quote @
                   '' does not exist'',
                 location = at_transition statePath (event t)\<rparr>]
          else []) @
         (case guard t of
            None \<Rightarrow> []
          | Some g \<Rightarrow> (if g \<noteq> [] then validateGuard g statePath (event t) else [])) @
         (let duplicates = filter (\<lambda>j. event (ts ! j) = event t \<and> guard (ts ! j) = guard t \<and>
                                       j \<noteq> i) [0..<length ts]
          in if length duplicates > 0
             then [\<lparr>severity = Error,
                    message = ''Duplicate transition for event '' @ quote @ event t @ quote,
                    location = at_state statePath\<rparr>]
             else []))"

fun validateStateTransitions_state ::
    "State list \<Rightarrow> State \<Rightarrow> string \<Rightarrow> ValidationError list"
  and validateStateTransitions_loop ::
    "State list \<Rightarrow> State list \<Rightarrow> string \<Rightarrow> ValidationError list" where
  "validateStateTransitions_state sts (State n par en ex ts ch ini it) parentPath =
     (let statePath = dotted parentPath n
      in concat (map (transition_diagnostics sts statePath ts) [0..<length ts]) @
         (if length ch > 0 then validateStateTransitions_loop ch ch statePath else []))"
| "validateStateTransitions_loop sts [] parentPath = []"
| "validateStateTransitions_loop sts (s # rest) parentPath =
     validateStateTransitions_state sts s parentPath @
     validateStateTransitions_loop sts rest parentPath"

definition validateStateTransitions :: "State list \<Rightarrow> string \<Rightarrow> ValidationError list" where
  "validateStateTransitions sts parentPath = validateStateTransitions_loop sts sts parentPath"

definition validateTransitions :: "StateMachine \<Rightarrow> ValidationError list" where
  "validateTransitions stateMachine = validateStateTransitions (states stateMachine) []"

subsection \<open>Conventions\<close>

fun hasTimeoutEvents :: "State list \<Rightarrow> bool" where
  "hasTimeoutEvents [] = False"
| "hasTimeoutEvents (State n par en ex ts ch ini it # ss) =
     (if list_ex (\<lambda>t. event t = ''TIMEOUT'') ts then True
      else if length ch > 0 \<and> hasTimeoutEvents ch then True
      else hasTimeoutEvents ss)"

definition validateQPConventions :: "StateMachine \<Rightarrow> ValidationError list" where
  "validateQPConventions stateMachine =
     concat (map (\<lambda>ev.
        (if \<not> isValidEventName (event_name ev)
         then [\<lparr>severity = Warning,
                message = ''Event '' @ quote @ event_name ev @ quote @
                  '' should be in UPPER_CASE format'',
                location = None\<rparr>]
         else []) @
        (if \<not> str_includes (event_value ev) ''Q_USER_SIG''
         then [\<lparr>severity = Warning,
                message = ''Event '' @ quote @ event_name ev @ quote @
                  '' should be based on Q_USER_SIG'',
                location = None\<rparr>]
         else []))
       (events stateMachine)) @
     (let hasTimeout = hasTimeoutEvents (states stateMachine);
          hasTimerMember = list_ex (\<lambda>m. member_type m = ''QTimeEvt'') (dataMembers stateMachine)
      in if hasTimeout \<and> \<not> hasTimerMember
         then [\<lparr>severity = Warning,
                message = ''State machine uses TIMEOUT events but has no QTimeEvt data member'',
                location = None\<rparr>]
         else [])"

subsection \<open>The whole pass\<close>

definition validate :: "StateMachine \<Rightarrow> ValidationError list" where
  "validate stateMachine =
     validateBasicStructure stateMachine @
     validateStates (states stateMachine) [] @
     checkReachability stateMachine @
     validateTransitions stateMachine @
     validateQPConventions stateMachine"

section \<open>Properties of the validator\<close>

subsection \<open>Duplicate state names\<close>

text \<open>
  The diagnostics are told apart by their message. Only \<^verbatim>\<open>collectStateNames\<close> writes a
  message that starts with \<^verbatim>\<open>Duplicate state name: \<close>, and only
  \<^verbatim>\<open>checkUnreachableStates\<close> writes one that starts with \<^verbatim>\<open>State '\<close> and ends with
  \<^verbatim>\<open>' is unreachable\<close>.
\<close>

definition is_duplicate_name :: "ValidationError \<Rightarrow> bool" where
  "is_duplicate_name d = startsWith (message d) ''Duplicate state name: ''"

definition is_unreachable :: "ValidationError \<Rightarrow> bool" where
  "is_unreachable d =
     (startsWith (message d) (''State '' @ quote) \<and>
      endsWith (message d) (quote @ '' is unreachable''))"

lemma collectStateNames_Cons_State:
  "collectStateNames (State n par en ex ts ch ini it # ss) names pfx =
     (let below = collectStateNames ch (insert n names) (dotted pfx n);
          others = collectStateNames ss (fst below) pfx
      in (fst others,
          (if n \<in> names
           then [\<lparr>severity = Error, message = ''Duplicate state name: '' @ n,
                  location = at_state (dotted pfx n)\<rparr>]
           else []) @ snd below @ snd others))"
  by (cases ch) (auto simp: Let_def split: prod.splits)

lemma collectStateNames_names:
  "fst (collectStateNames sts names pfx) = names \<union> name ` set (collectStates sts)"
proof (induction sts arbitrary: names pfx rule: collectStates.induct)
  case 1
  show ?case by simp
next
  case (2 n par en ex ts ch ini it ss)
  show ?case
    by (simp add: collectStateNames_Cons_State Let_def "2.IH" del: collectStateNames.simps) auto
qed

lemma collectStateNames_none_iff:
  "snd (collectStateNames sts names pfx) = [] \<longleftrightarrow>
   distinct (map name (collectStates sts)) \<and> names \<inter> name ` set (collectStates sts) = {}"
proof (induction sts arbitrary: names pfx rule: collectStates.induct)
  case 1
  show ?case by simp
next
  case (2 n par en ex ts ch ini it ss)
  show ?case
    by (simp add: collectStateNames_Cons_State Let_def "2.IH" collectStateNames_names
        del: collectStateNames.simps) auto
qed

lemma collectStateNames_all_duplicate:
  "d \<in> set (snd (collectStateNames sts names pfx)) \<Longrightarrow> is_duplicate_name d"
proof (induction sts arbitrary: names pfx rule: collectStates.induct)
  case 1
  then show ?case by simp
next
  case (2 n par en ex ts ch ini it ss)
  from "2.prems" show ?case
    by (auto simp: collectStateNames_Cons_State Let_def is_duplicate_name_def
        simp del: collectStateNames.simps dest: "2.IH" split: if_splits)
qed

lemma validateStates_Cons_State:
  "validateStates (State n par en ex ts ch ini it # ss) pp =
     (if \<not> isValidStateName n
      then [\<lparr>severity = Warning,
             message = ''State name '' @ quote @ n @ quote @
               '' should start with uppercase and use CamelCase'',
             location = at_state (dotted pp n)\<rparr>]
      else []) @
     (if ch \<noteq> [] \<and> it = None
      then [\<lparr>severity = Error,
             message = ''Composite state '' @ quote @ n @ quote @
               '' must have an initial transition'',
             location = at_state (dotted pp n)\<rparr>]
      else []) @
     (if ch = [] \<and> it \<noteq> None
      then [\<lparr>severity = Warning,
             message = ''State '' @ quote @ n @ quote @
               '' has initial transition but no child states'',
             location = at_state (dotted pp n)\<rparr>]
      else []) @
     validateActions (State n par en ex ts ch ini it) (dotted pp n) @
     validateStates ch (dotted pp n) @ validateStates ss pp"
  by (cases ch) (simp_all add: Let_def)

lemma validateStates_no_duplicate:
  "d \<in> set (validateStates sts pp) \<Longrightarrow> \<not> is_duplicate_name d"
proof (induction sts arbitrary: pp rule: collectStates.induct)
  case 1
  then show ?case by simp
next
  case (2 n par en ex ts ch ini it ss)
  from "2.prems" show ?case
    by (auto simp: validateStates_Cons_State validateActions_def is_duplicate_name_def
        simp del: validateStates.simps dest: "2.IH" split: if_splits)
qed

lemma checkUnreachableStates_Cons_State:
  "checkUnreachableStates V (State n par en ex ts ch ini it # ss) pp =
     (if n \<notin> V \<and> n \<noteq> ''[*]''
      then [\<lparr>severity = Warning,
             message = ''State '' @ quote @ n @ quote @ '' is unreachable'',
             location = at_state (dotted pp n)\<rparr>]
      else []) @
     checkUnreachableStates V ch (dotted pp n) @ checkUnreachableStates V ss pp"
  by (cases ch) (simp_all add: Let_def)

lemma checkUnreachableStates_no_duplicate:
  "d \<in> set (checkUnreachableStates V sts pp) \<Longrightarrow> \<not> is_duplicate_name d"
proof (induction sts arbitrary: pp rule: collectStates.induct)
  case 1
  then show ?case by simp
next
  case (2 n par en ex ts ch ini it ss)
  from "2.prems" show ?case
    by (auto simp: checkUnreachableStates_Cons_State is_duplicate_name_def
        simp del: checkUnreachableStates.simps dest: "2.IH" split: if_splits)
qed

lemma transition_diagnostics_no_duplicate:
  "d \<in> set (transition_diagnostics sts p ts i) \<Longrightarrow> \<not> is_duplicate_name d"
  by (auto simp: transition_diagnostics_def validateGuard_def Let_def is_duplicate_name_def
      split: if_splits option.splits)

lemma validateStateTransitions_loop_Cons_State:
  "validateStateTransitions_loop sts (State n par en ex ts ch ini it # rest) pp =
     concat (map (transition_diagnostics sts (dotted pp n) ts) [0..<length ts]) @
     validateStateTransitions_loop ch ch (dotted pp n) @
     validateStateTransitions_loop sts rest pp"
  by (cases ch) (simp_all add: Let_def)

lemma validateStateTransitions_loop_no_duplicate:
  "d \<in> set (validateStateTransitions_loop sts rest pp) \<Longrightarrow> \<not> is_duplicate_name d"
proof (induction rest arbitrary: sts pp rule: collectStates.induct)
  case 1
  then show ?case by simp
next
  case (2 n par en ex ts ch ini it ss)
  from "2.prems" show ?case
    by (auto simp: validateStateTransitions_loop_Cons_State
        simp del: validateStateTransitions_loop.simps
        dest: "2.IH" transition_diagnostics_no_duplicate)
qed

lemma validateQPConventions_no_duplicate:
  "d \<in> set (validateQPConventions sm) \<Longrightarrow> \<not> is_duplicate_name d"
  by (auto simp: validateQPConventions_def Let_def is_duplicate_name_def split: if_splits)

lemma filter_id: "(\<And>d. d \<in> set xs \<Longrightarrow> P d) \<Longrightarrow> filter P xs = xs"
  by (induction xs) auto

lemma filter_none: "(\<And>d. d \<in> set xs \<Longrightarrow> \<not> P d) \<Longrightarrow> filter P xs = []"
  by (induction xs) auto

lemma duplicate_diagnostics_of_validate:
  "filter is_duplicate_name (validate sm) = snd (collectStateNames (states sm) {} [])"
proof -
  have "filter is_duplicate_name (validateBasicStructure sm) =
      snd (collectStateNames (states sm) {} [])"
    by (simp add: validateBasicStructure_def is_duplicate_name_def
        filter_id [OF collectStateNames_all_duplicate])
  moreover have "filter is_duplicate_name (validateStates (states sm) []) = []"
    by (rule filter_none) (rule validateStates_no_duplicate)
  moreover have "filter is_duplicate_name (checkReachability sm) = []"
    unfolding checkReachability_def
    by (rule filter_none) (rule checkUnreachableStates_no_duplicate)
  moreover have "filter is_duplicate_name (validateTransitions sm) = []"
    unfolding validateTransitions_def validateStateTransitions_def
    by (rule filter_none) (rule validateStateTransitions_loop_no_duplicate)
  moreover have "filter is_duplicate_name (validateQPConventions sm) = []"
    by (rule filter_none) (rule validateQPConventions_no_duplicate)
  ultimately show ?thesis by (simp add: validate_def)
qed

text \<open>
  Claim C2, as amended. The names of the whole tree form one namespace: the validator
  emits no duplicate-state-name diagnostic exactly when no two states anywhere in the
  tree have the same bare name, in the same scope or in different scopes.
\<close>

theorem duplicate_names_flattened:
  "filter is_duplicate_name (validate sm) = [] \<longleftrightarrow>
   distinct (map name (collectStates (states sm)))"
  by (simp add: duplicate_diagnostics_of_validate collectStateNames_none_iff)

text \<open>State names are unique within each sibling scope: the roots, and the children of every state.\<close>

definition unique_in_each_scope :: "State list \<Rightarrow> bool" where
  "unique_in_each_scope sts =
     (distinct (map name sts) \<and>
      list_all (\<lambda>s. distinct (map name (children s))) (collectStates sts))"

text \<open>
  Claim C2 as stated fails on the tie-break machine: its names are unique within each
  sibling scope, and the validator reports the root state \<^verbatim>\<open>B\<close> as a duplicate of \<^verbatim>\<open>A.B\<close>.
\<close>

theorem duplicate_across_scopes_counterexample:
  "unique_in_each_scope (states tie_break_machine) \<and>
   filter is_duplicate_name (validate tie_break_machine) =
     [\<lparr>severity = Error, message = ''Duplicate state name: B'', location = at_state ''B''\<rparr>]"
  by (simp add: unique_in_each_scope_def tie_break_machine_def
      duplicate_diagnostics_of_validate dotted_def Let_def)

theorem duplicate_names_flattened_witness:
  "filter is_duplicate_name (validate xyz_machine) = [] \<and>
   filter is_duplicate_name (validate tie_break_machine) \<noteq> []"
  using duplicate_names_flattened [of xyz_machine] duplicate_names_flattened [of tie_break_machine]
  by (simp add: xyz_machine_def tie_break_machine_def)


subsection \<open>Unreachable states\<close>

text \<open>The states of a forest in pre-order, each with its dotted path.\<close>

fun statePaths :: "State list \<Rightarrow> string \<Rightarrow> (string \<times> State) list" where
  "statePaths [] parentPath = []"
| "statePaths (State n par en ex ts ch ini it # ss) parentPath =
     (dotted parentPath n, State n par en ex ts ch ini it) #
     statePaths ch (dotted parentPath n) @ statePaths ss parentPath"

definition unreachable_warning :: "string \<times> State \<Rightarrow> ValidationError" where
  "unreachable_warning ps =
     \<lparr>severity = Warning,
      message = ''State '' @ quote @ name (snd ps) @ quote @ '' is unreachable'',
      location = at_state (fst ps)\<rparr>"

lemma checkUnreachableStates_eq:
  "checkUnreachableStates V sts pp =
     map unreachable_warning
       (filter (\<lambda>ps. name (snd ps) \<notin> V \<and> name (snd ps) \<noteq> ''[*]'') (statePaths sts pp))"
proof (induction sts arbitrary: pp rule: collectStates.induct)
  case 1
  show ?case by simp
next
  case (2 n par en ex ts ch ini it ss)
  show ?case
    by (simp add: checkUnreachableStates_Cons_State "2.IH" unreachable_warning_def
        del: checkUnreachableStates.simps)
qed

lemma is_unreachable_warning: "is_unreachable (unreachable_warning ps)"
  by (simp add: is_unreachable_def unreachable_warning_def endsWith_def)

lemma collectStateNames_no_unreachable:
  "d \<in> set (snd (collectStateNames sts names pfx)) \<Longrightarrow> \<not> is_unreachable d"
  by (auto dest!: collectStateNames_all_duplicate simp: is_duplicate_name_def is_unreachable_def
      elim: startsWith.elims)


lemma validateStates_no_unreachable:
  "d \<in> set (validateStates sts pp) \<Longrightarrow> \<not> is_unreachable d"
proof (induction sts arbitrary: pp rule: collectStates.induct)
  case 1
  then show ?case by simp
next
  case (2 n par en ex ts ch ini it ss)
  from "2.prems" show ?case
    by (auto simp: validateStates_Cons_State validateActions_def is_unreachable_def endsWith_def
        simp del: validateStates.simps dest: "2.IH" split: if_splits)
qed

lemma transition_diagnostics_no_unreachable:
  "d \<in> set (transition_diagnostics sts p ts i) \<Longrightarrow> \<not> is_unreachable d"
  by (auto simp: transition_diagnostics_def validateGuard_def Let_def is_unreachable_def
      split: if_splits option.splits)

lemma validateStateTransitions_loop_no_unreachable:
  "d \<in> set (validateStateTransitions_loop sts rest pp) \<Longrightarrow> \<not> is_unreachable d"
proof (induction rest arbitrary: sts pp rule: collectStates.induct)
  case 1
  then show ?case by simp
next
  case (2 n par en ex ts ch ini it ss)
  from "2.prems" show ?case
    by (auto simp: validateStateTransitions_loop_Cons_State
        simp del: validateStateTransitions_loop.simps
        dest: "2.IH" transition_diagnostics_no_unreachable)
qed

lemma validateQPConventions_no_unreachable:
  "d \<in> set (validateQPConventions sm) \<Longrightarrow> \<not> is_unreachable d"
  by (auto simp: validateQPConventions_def Let_def is_unreachable_def split: if_splits)

lemma validateBasicStructure_no_unreachable:
  "d \<in> set (validateBasicStructure sm) \<Longrightarrow> \<not> is_unreachable d"
  by (auto simp: validateBasicStructure_def is_unreachable_def
      dest: collectStateNames_no_unreachable split: if_splits)

text \<open>
  The graph the traversal walks, written out without the functions of the traversal. An
  edge leads from a name \<open>n\<close> to a name \<open>n'\<close> when the first state of the forest in
  pre-order that has the name \<open>n\<close> has a transition to \<open>n'\<close> whose \<^verbatim>\<open>isInternal\<close> is not
  true, or has an initial transition to \<open>n'\<close>. A name that no state has is the source of
  no edge.
\<close>

definition edges :: "State list \<Rightarrow> (string \<times> string) set" where
  "edges allStates =
     {(n, n'). \<exists>st. find (\<lambda>s. name s = n) (collectStates allStates) = Some st \<and>
        ((\<exists>t\<in>set (transitions st). isInternal t \<noteq> Some True \<and> target t = n') \<or>
         (\<exists>t. initialTransition st = Some t \<and> target t = n'))}"

text \<open>\<^verbatim>\<open>findState\<close> returns that first state, and the traversal asks for those names.\<close>

lemma find_append_first:
  "find P (xs @ ys) = (case find P xs of None \<Rightarrow> find P ys | Some x \<Rightarrow> Some x)"
  by (induction xs) simp_all

lemma findState_find: "findState nm sts = find (\<lambda>s. name s = nm) (collectStates sts)"
  by (induction sts rule: collectStates.induct)
    (simp_all add: find_append_first split: option.splits)

lemma set_successors:
  "set (successors st) =
     {n'. (\<exists>t\<in>set (transitions st). isInternal t \<noteq> Some True \<and> target t = n') \<or>
          (\<exists>t. initialTransition st = Some t \<and> target t = n')}"
proof (cases "initialTransition st")
  case None
  then show ?thesis by (auto simp: successors_def)
next
  case (Some it)
  then show ?thesis by (auto simp: successors_def)
qed

lemma edges_Image:
  "edges allStates `` {n} =
     (case findState n allStates of None \<Rightarrow> {} | Some st \<Rightarrow> set (successors st))"
  by (auto simp: edges_def findState_find set_successors split: option.splits)

text \<open>
  The traversal keeps what was visited, adds only names that are reachable from a pending
  name, and its result is closed under the edges at every name it adds.
\<close>

lemma traverse_pending_sound_closed:
  "visitedStates \<union> set pending \<subseteq> traverse_pending allStates pending visitedStates \<and>
   traverse_pending allStates pending visitedStates \<subseteq>
     visitedStates \<union> (edges allStates)\<^sup>* `` set pending \<and>
   (\<forall>n\<in>traverse_pending allStates pending visitedStates - visitedStates.
      edges allStates `` {n} \<subseteq> traverse_pending allStates pending visitedStates)"
proof (induction allStates pending visitedStates rule: traverse_pending.induct)
  case (1 allStates visitedStates)
  show ?case by simp
next
  case (2 allStates stateName pending visitedStates)
  let ?E = "edges allStates"
  show ?case
  proof (cases "stateName \<in> visitedStates")
    case True
    with "2.IH"(1) show ?thesis by auto
  next
    case False
    show ?thesis
    proof (cases "findState stateName allStates")
      case None
      then have none: "?E `` {stateName} = {}" by (simp add: edges_Image)
      let ?W = "traverse_pending allStates pending (insert stateName visitedStates)"
      from "2.IH"(2) [OF False None]
      have a: "insert stateName visitedStates \<union> set pending \<subseteq> ?W"
        and b: "?W \<subseteq> insert stateName visitedStates \<union> ?E\<^sup>* `` set pending"
        and c: "\<forall>n\<in>?W - insert stateName visitedStates. ?E `` {n} \<subseteq> ?W"
        by simp_all
      have w: "traverse_pending allStates (stateName # pending) visitedStates = ?W"
        using False None by simp
      have "?W \<subseteq> visitedStates \<union> ?E\<^sup>* `` set (stateName # pending)"
        using b by auto
      moreover have "\<forall>n\<in>?W - visitedStates. ?E `` {n} \<subseteq> ?W"
        using c none by blast
      moreover have "visitedStates \<union> set (stateName # pending) \<subseteq> ?W" using a by auto
      ultimately show ?thesis unfolding w by blast
    next
      case (Some st)
      then have succ: "?E `` {stateName} = set (successors st)" by (simp add: edges_Image)
      let ?W = "traverse_pending allStates (successors st @ pending) (insert stateName visitedStates)"
      from "2.IH"(3) [OF False Some]
      have a: "insert stateName visitedStates \<union> set (successors st @ pending) \<subseteq> ?W"
        and b: "?W \<subseteq> insert stateName visitedStates \<union> ?E\<^sup>* `` set (successors st @ pending)"
        and c: "\<forall>n\<in>?W - insert stateName visitedStates. ?E `` {n} \<subseteq> ?W"
        by simp_all
      have w: "traverse_pending allStates (stateName # pending) visitedStates = ?W"
        using False Some by simp
      have "?E\<^sup>* `` set (successors st @ pending) \<subseteq> ?E\<^sup>* `` set (stateName # pending)"
      proof
        fix x assume "x \<in> ?E\<^sup>* `` set (successors st @ pending)"
        then obtain y where y: "y \<in> set (successors st @ pending)" "(y, x) \<in> ?E\<^sup>*"
          by auto
        show "x \<in> ?E\<^sup>* `` set (stateName # pending)"
        proof (cases "y \<in> set pending")
          case True
          with y(2) show ?thesis by auto
        next
          case False
          with y(1) succ have "(stateName, y) \<in> ?E" by auto
          from this y(2) have "(stateName, x) \<in> ?E\<^sup>*"
            by (rule converse_rtrancl_into_rtrancl)
          then show ?thesis by auto
        qed
      qed
      with b have "?W \<subseteq> visitedStates \<union> ?E\<^sup>* `` set (stateName # pending)"
        by auto
      moreover have "\<forall>n\<in>?W - visitedStates. ?E `` {n} \<subseteq> ?W"
        using c succ a by auto
      moreover have "visitedStates \<union> set (stateName # pending) \<subseteq> ?W" using a by auto
      ultimately show ?thesis unfolding w by blast
    qed
  qed
qed

text \<open>Started with nothing visited, the traversal marks exactly the names reachable from its start.\<close>

lemma traverseFromState_closure:
  "traverseFromState stateName allStates {} = (edges allStates)\<^sup>* `` {stateName}"
proof -
  let ?W = "traverse_pending allStates [stateName] {}"
  let ?E = "edges allStates"
  from traverse_pending_sound_closed [of "{}" "[stateName]" allStates]
  have a: "stateName \<in> ?W" and b: "?W \<subseteq> ?E\<^sup>* `` {stateName}"
    and c: "\<forall>n\<in>?W. ?E `` {n} \<subseteq> ?W" by auto
  have "x \<in> ?W" if "(stateName, x) \<in> ?E\<^sup>*" for x
    using that
  proof (induction rule: rtrancl_induct)
    case base
    show ?case by (rule a)
  next
    case (step y z)
    with c show ?case by auto
  qed
  with b show ?thesis unfolding traverseFromState_def by auto
qed

text \<open>
  Claim C7. Among all the diagnostics \<^verbatim>\<open>validate\<close> returns, the unreachable ones are,
  in pre-order, exactly one for each state whose name the traversal from the initial
  state has not visited and is not \<^verbatim>\<open>[*]\<close>: a warning, with the state's name in the
  message, located at the state's path. No other state gets one. The names the traversal
  visits are those reachable from the name of the initial state along transitions that
  are not internal and along initial transitions; without an initial state none is.
\<close>

theorem unreachable_diagnostics:
  "filter is_unreachable (validate sm) =
     map unreachable_warning
       (filter (\<lambda>ps. name (snd ps) \<notin> reached sm \<and> name (snd ps) \<noteq> ''[*]'')
          (statePaths (states sm) [])) \<and>
   reached sm =
     (if initialState sm \<noteq> [] then (edges (states sm))\<^sup>* `` {initialState sm} else {})"
proof -
  have closure: "reached sm =
     (if initialState sm \<noteq> [] then (edges (states sm))\<^sup>* `` {initialState sm} else {})"
    by (simp add: reached_def traverseFromState_closure)
  have "filter is_unreachable (validateBasicStructure sm) = []"
    by (rule filter_none) (rule validateBasicStructure_no_unreachable)
  moreover have "filter is_unreachable (validateStates (states sm) []) = []"
    by (rule filter_none) (rule validateStates_no_unreachable)
  moreover have "filter is_unreachable (checkReachability sm) = checkReachability sm"
    unfolding checkReachability_def checkUnreachableStates_eq
    by (rule filter_id) (auto simp: is_unreachable_warning)
  moreover have "filter is_unreachable (validateTransitions sm) = []"
    unfolding validateTransitions_def validateStateTransitions_def
    by (rule filter_none) (rule validateStateTransitions_loop_no_unreachable)
  moreover have "filter is_unreachable (validateQPConventions sm) = []"
    by (rule filter_none) (rule validateQPConventions_no_unreachable)
  ultimately have "filter is_unreachable (validate sm) =
     map unreachable_warning
       (filter (\<lambda>ps. name (snd ps) \<notin> reached sm \<and> name (snd ps) \<noteq> ''[*]'')
          (statePaths (states sm) []))"
    by (simp add: validate_def checkReachability_def checkUnreachableStates_eq)
  with closure show ?thesis by (rule conjI [rotated])
qed

text \<open>
  A machine in which \<^verbatim>\<open>On\<close> is reached only by the ordinary transition of \<^verbatim>\<open>Off\<close>, \<^verbatim>\<open>Panel\<close>
  only by a transition of \<^verbatim>\<open>On\<close> whose \<^verbatim>\<open>isInternal\<close> is false, \<^verbatim>\<open>Dial\<close> only by the initial
  transition of \<^verbatim>\<open>Panel\<close>, and in which only an internal transition goes to \<^verbatim>\<open>Lost\<close> and
  nothing goes to \<^verbatim>\<open>Knob\<close>.
\<close>

definition panel_machine :: StateMachine where
  "panel_machine =
     \<lparr>machine_name = ''Panel'', machine_type = QActive, priority = None, stackSize = None,
      events = [],
      states =
        [State ''Off'' None [] []
           [\<lparr>event = ''TIMEOUT'', target = ''On'', guard = None, action = None,
             isInternal = None\<rparr>] [] None None,
         State ''On'' None [] []
           [\<lparr>event = ''TICK'', target = ''Lost'', guard = None, action = Some ''count()'',
             isInternal = Some True\<rparr>,
            \<lparr>event = ''PRESS'', target = ''Panel'', guard = None, action = None,
             isInternal = Some False\<rparr>] [] None None,
         State ''Panel'' None [] [] []
           [State ''Dial'' (Some ''Panel'') [] [] [] [] None None,
            State ''Knob'' (Some ''Panel'') [] [] [] [] None None]
           None
           (Some \<lparr>event = ''@Q_INIT_SIG'', target = ''Dial'', guard = None, action = None,
                  isInternal = None\<rparr>),
         State ''Lost'' None [] [] [] [] None None],
      initialState = ''Off'', dataMembers = []\<rparr>"

lemma reached_panel: "reached panel_machine = {''Off'', ''On'', ''Panel'', ''Dial''}"
  by (simp add: panel_machine_def reached_def traverseFromState_def successors_def) auto

theorem unreachable_diagnostics_witness:
  "filter is_unreachable (validate panel_machine) =
     [\<lparr>severity = Warning, message = ''State '' @ quote @ ''Knob'' @ quote @ '' is unreachable'',
       location = at_state ''Panel.Knob''\<rparr>,
      \<lparr>severity = Warning, message = ''State '' @ quote @ ''Lost'' @ quote @ '' is unreachable'',
       location = at_state ''Lost''\<rparr>] \<and>
   (edges (states panel_machine))\<^sup>* `` {''Off''} = {''Off'', ''On'', ''Panel'', ''Dial''}"
proof -
  note diagnostics = unreachable_diagnostics [of panel_machine]
  have init: "initialState panel_machine = ''Off''" by (simp add: panel_machine_def)
  from diagnostics [THEN conjunct2]
  have "(edges (states panel_machine))\<^sup>* `` {''Off''} = {''Off'', ''On'', ''Panel'', ''Dial''}"
    by (simp add: reached_panel init)
  moreover from diagnostics [THEN conjunct1]
  have "filter is_unreachable (validate panel_machine) =
     [\<lparr>severity = Warning, message = ''State '' @ quote @ ''Knob'' @ quote @ '' is unreachable'',
       location = at_state ''Panel.Knob''\<rparr>,
      \<lparr>severity = Warning, message = ''State '' @ quote @ ''Lost'' @ quote @ '' is unreachable'',
       location = at_state ''Lost''\<rparr>]"
    by (simp add: reached_panel) (simp add: panel_machine_def unreachable_warning_def dotted_def)
  ultimately show ?thesis by (rule conjI [rotated])
qed

subsection \<open>Targets that resolve nowhere\<close>








lemma statePaths_collectStates: "map snd (statePaths sts pp) = collectStates sts"
  by (induction sts arbitrary: pp rule: collectStates.induct) auto













section \<open>Lines, white space and words\<close>

text \<open>
  The preprocessor and the structural parser read text line by line with
  \<^verbatim>\<open>String.prototype.trim\<close> and regular expressions. A string is read here as the
  sequence of its UTF-8 bytes, and the classes are the ASCII ones: \<^verbatim>\<open>\s\<close> and
  \<^verbatim>\<open>trim\<close> take tab, line feed, vertical tab, form feed, carriage return and space;
  \<^verbatim>\<open>\w\<close> takes letters, digits and the underscore; \<^verbatim>\<open>.\<close> takes everything but line
  feed and carriage return. On text of ASCII characters this is what the code does.
  JavaScript's \<^verbatim>\<open>\s\<close> and \<^verbatim>\<open>trim\<close> also take characters beyond ASCII (the no-break space,
  the byte-order mark, the line and paragraph separators, the space separators), and \<^verbatim>\<open>.\<close>
  leaves out the line and paragraph separators; text with characters beyond ASCII is
  outside this model. The results below about \<^verbatim>\<open>preprocess\<close> and \<^verbatim>\<open>parse\<close> on an arbitrary
  input therefore assume that the input is ASCII text, and the inputs of the results about
  one given input are ASCII text. (The lemmas that lead to them are about the functions
  defined here, line by line, and hold for every string.)
\<close>

definition ascii_text :: "string \<Rightarrow> bool" where
  "ascii_text s = list_all (\<lambda>c. (of_char c :: nat) < 128) s"

definition is_space :: "char \<Rightarrow> bool" where
  "is_space c = ((of_char c :: nat) \<in> {9, 10, 11, 12, 13, 32})"

definition is_word :: "char \<Rightarrow> bool" where
  "is_word c = (is_upper c \<or> is_lower c \<or> is_digit c \<or> c = CHR ''_'')"

definition is_line_terminator :: "char \<Rightarrow> bool" where
  "is_line_terminator c = ((of_char c :: nat) \<in> {10, 13})"

definition trim :: "string \<Rightarrow> string" where
  "trim s = rev (dropWhile is_space (rev (dropWhile is_space s)))"

text \<open>\<^verbatim>\<open>content.split('\n')\<close> and \<^verbatim>\<open>lines.join('\n')\<close>.\<close>

fun split_lines :: "string \<Rightarrow> string list" where
  "split_lines [] = [[]]"
| "split_lines (c # cs) =
     (if c = CHR 0x0A then [] # split_lines cs
      else (case split_lines cs of
              [] \<Rightarrow> [[c]]
            | l # ls \<Rightarrow> (c # l) # ls))"

fun join_lines :: "string list \<Rightarrow> string" where
  "join_lines [] = []"
| "join_lines [l] = l"
| "join_lines (l # m # ls) = l @ [CHR 0x0A] @ join_lines (m # ls)"

text \<open>A number in a template literal: its decimal digits.\<close>

definition digit_char :: "nat \<Rightarrow> char" where
  "digit_char d = char_of (of_char (CHR ''0'') + d)"

fun string_of_nat :: "nat \<Rightarrow> string" where
  "string_of_nat n =
     (let units = digit_char (n mod 10)
      in if n div 10 = 0 then [units] else string_of_nat (n div 10) @ [units])"

declare string_of_nat.simps [simp del]

section \<open>The preprocessor\<close>

text \<open>
  The values \<^verbatim>\<open>preprocess\<close> stores in \<^verbatim>\<open>this.metadata\<close>: the record of a state block
  (entry actions, exit actions, internal transitions as event and optional action), the
  record of a transition (source, target, event, optional guard, optional action), and
  the record of a history marker (its kind).
\<close>

datatype Meta =
    StateMeta "string list" "string list" "(string \<times> string option) list"
  | TransitionMeta string string string "string option" "string option"
  | HistoryMeta string

text \<open>
  \<^verbatim>\<open>Map.prototype.set\<close>: a new key goes to the end, an existing key keeps its place and
  gets the new value. \<^verbatim>\<open>Map.prototype.get\<close> is \<^const>\<open>map_of\<close>.
\<close>

fun map_set :: "string \<Rightarrow> Meta \<Rightarrow> (string \<times> Meta) list \<Rightarrow> (string \<times> Meta) list" where
  "map_set k v [] = [(k, v)]"
| "map_set k v ((k', v') # m) = (if k' = k then (k, v) # m else (k', v') # map_set k v m)"

datatype error = TypeError

record pstate =
  metadata :: "(string \<times> Meta) list"
  stateCounter :: nat
  outputLines :: "string list"
  inStateBlock :: bool
  currentState :: "string option"
  stateIndent :: string
  skipNextLine :: bool

subsection \<open>The regular expressions\<close>

text \<open>
  \<^verbatim>\<open>/^state\s+(\w+)\s*{$/\<close> on the trimmed line; the result is group 1. The classes
  that follow one another are disjoint, so the greedy match is the only one.
\<close>

definition match_state_open :: "string \<Rightarrow> string option" where
  "match_state_open s =
     (if startsWith s ''state''
      then (let r = drop 5 s;
                r1 = dropWhile is_space r;
                nm = takeWhile is_word r1;
                r2 = dropWhile is_space (dropWhile is_word r1)
            in if takeWhile is_space r \<noteq> [] \<and> nm \<noteq> [] \<and> r2 = ''{'' then Some nm else None)
      else None)"

text \<open>
  A regular expression without \<^verbatim>\<open>^\<close> is tried at every position from the left, and
  the first position where it matches wins. \<open>m\<close> is the match anchored at the start of
  its argument.
\<close>

fun search :: "(string \<Rightarrow> 'a option) \<Rightarrow> string \<Rightarrow> 'a option" where
  "search m [] = m []"
| "search m (c # cs) = (case m (c # cs) of Some r \<Rightarrow> Some r | None \<Rightarrow> search m cs)"

text \<open>
  \<^verbatim>\<open>\s*(.+)\<close> after a slash, with nothing required behind it: the group starts after
  the white space and runs up to the first line terminator. When only white space
  follows the slash, the white space gives characters back until the group can start,
  which is at the last character that is not a line terminator.
\<close>

definition slash_group :: "string \<Rightarrow> string option" where
  "slash_group u =
     (case dropWhile is_space u of
        d # ds \<Rightarrow> Some (takeWhile (\<lambda>c. \<not> is_line_terminator c) (d # ds))
      | [] \<Rightarrow>
          (case filter (\<lambda>c. \<not> is_line_terminator c) u of
             [] \<Rightarrow> None
           | x # xs \<Rightarrow> Some [last (x # xs)]))"

text \<open>
  \<^verbatim>\<open>\s*(.+)$\<close> after a slash: the group has to reach the end of the string, so the
  text after the white space must be free of line terminators; when only white space
  follows the slash, the group is its last character, which must not be a line
  terminator.
\<close>

definition slash_group_to_end :: "string \<Rightarrow> string option" where
  "slash_group_to_end u =
     (case dropWhile is_space u of
        d # ds \<Rightarrow> if list_all (\<lambda>c. \<not> is_line_terminator c) (d # ds) then Some (d # ds) else None
      | [] \<Rightarrow> if u \<noteq> [] \<and> \<not> is_line_terminator (last u) then Some [last u] else None)"

text \<open>
  \<^verbatim>\<open>/:\s*(\w+)\s*(?:\/\s*(.+))?/\<close>: the match starts at the first colon that is
  followed, after white space, by a word character. The result is group 1, the whole
  word, and group 2, which is there when a slash follows the word and its white space.
\<close>

definition internal_at :: "string \<Rightarrow> (string \<times> string option) option" where
  "internal_at s =
     (case s of
        [] \<Rightarrow> None
      | c # r \<Rightarrow>
          if c = CHR '':''
          then (let r1 = dropWhile is_space r;
                    ev = takeWhile is_word r1
                in if ev = [] then None
                   else Some (ev,
                     (case dropWhile is_space (dropWhile is_word r1) of
                        [] \<Rightarrow> None
                      | d # u \<Rightarrow> if d = CHR ''/'' then slash_group u else None)))
          else None)"

definition match_internal :: "string \<Rightarrow> (string \<times> string option) option" where
  "match_internal s = search internal_at s"

text \<open>
  The pattern of \<^verbatim>\<open>processTransition\<close>,
  \<^verbatim>\<open>/^(\s*)(\w+)\s*-->\s*(\w+)\s*:\s*([^[/]+)(?:\s*\[([^\]]+)\])?(?:\s*\/\s*(.+))?$/\<close>.
  Up to the colon every class is followed by a disjoint one, so the greedy match is the
  only one. \<^verbatim>\<open>transition_tail\<close> is \<^verbatim>\<open>(?:\s*\/\s*(.+))?$\<close>: the action group, or the end
  of the line. \<^verbatim>\<open>transition_label\<close> is the part after the colon. The event group takes
  the longest run of characters other than \<^verbatim>\<open>[\<close> and \<^verbatim>\<open>/\<close>; a shorter event cannot
  make the rest match, because the groups behind it start with \<^verbatim>\<open>\s*\<close> and need a
  \<^verbatim>\<open>[\<close> or a \<^verbatim>\<open>/\<close> next. The white space in front of the event is taken by
  \<^verbatim>\<open>\s*\<close>, except that of a run that is all white space the last character is left for
  the event. The guard group runs to the first \<^verbatim>\<open>]\<close>.
\<close>

record TransitionGroups =
  g_indent :: string
  g_source :: string
  g_target :: string
  g_event :: string
  g_guard :: "string option"
  g_action :: "string option"

definition transition_tail :: "string \<Rightarrow> string option option" where
  "transition_tail x =
     (case dropWhile is_space x of
        [] \<Rightarrow> if x = [] then Some None else None
      | c # u \<Rightarrow>
          if c = CHR ''/''
          then (case slash_group_to_end u of Some a \<Rightarrow> Some (Some a) | None \<Rightarrow> None)
          else None)"

definition transition_label ::
  "string \<Rightarrow> (string \<times> string option \<times> string option) option" where
  "transition_label r =
     (let m = takeWhile (\<lambda>c. c \<noteq> CHR ''['' \<and> c \<noteq> CHR ''/'') r;
          t = dropWhile (\<lambda>c. c \<noteq> CHR ''['' \<and> c \<noteq> CHR ''/'') r;
          ev = (if dropWhile is_space m = [] then [last m] else dropWhile is_space m)
      in if m = [] then None
         else (case t of
                 [] \<Rightarrow> Some (ev, None, None)
               | c # t1 \<Rightarrow>
                   if c = CHR ''[''
                   then (let g = takeWhile (\<lambda>c. c \<noteq> CHR '']'') t1
                         in case dropWhile (\<lambda>c. c \<noteq> CHR '']'') t1 of
                              [] \<Rightarrow> None
                            | b # t2 \<Rightarrow>
                                if g = [] then None
                                else (case transition_tail t2 of
                                        Some a \<Rightarrow> Some (ev, Some g, a)
                                      | None \<Rightarrow> None))
                   else (case transition_tail (c # t1) of
                           Some a \<Rightarrow> Some (ev, None, a)
                         | None \<Rightarrow> None)))"

definition match_transition :: "string \<Rightarrow> TransitionGroups option" where
  "match_transition ln =
     (let ind = takeWhile is_space ln;
          r0 = dropWhile is_space ln;
          src = takeWhile is_word r0;
          r1 = dropWhile is_space (dropWhile is_word r0);
          r2 = dropWhile is_space (drop 3 r1);
          tgt = takeWhile is_word r2;
          r3 = dropWhile is_space (dropWhile is_word r2)
      in if src = [] \<or> \<not> startsWith r1 ''-->'' \<or> tgt = [] then None
         else (case r3 of
                 [] \<Rightarrow> None
               | c # r \<Rightarrow>
                   if c = CHR '':''
                   then (case transition_label r of
                           Some (ev, g, a) \<Rightarrow>
                             Some \<lparr>g_indent = ind, g_source = src, g_target = tgt,
                                   g_event = ev, g_guard = g, g_action = a\<rparr>
                         | None \<Rightarrow> None)
                   else None))"

text \<open>
  \<^verbatim>\<open>line.replace(/\[H\*?\]/, r)\<close>: the first \<^verbatim>\<open>[H*]\<close> or \<^verbatim>\<open>[H]\<close> from the left is
  replaced; at one position the star is taken when it is there.
\<close>

fun replace_history :: "string \<Rightarrow> string \<Rightarrow> string" where
  "replace_history [] r = []"
| "replace_history (c # cs) r =
     (if startsWith (c # cs) ''[H*]'' then r @ drop 4 (c # cs)
      else if startsWith (c # cs) ''[H]'' then r @ drop 3 (c # cs)
      else c # replace_history cs r)"

subsection \<open>The scan\<close>

text \<open>The key and the record that \<^verbatim>\<open>processTransition\<close> stores for a matched line.\<close>

definition transition_key :: "TransitionGroups \<Rightarrow> string" where
  "transition_key g = g_source g @ ''_to_'' @ g_target g @ ''_'' @ trim (g_event g)"

definition transition_meta :: "TransitionGroups \<Rightarrow> Meta" where
  "transition_meta g =
     TransitionMeta (g_source g) (g_target g) (trim (g_event g))
       (map_option trim (g_guard g)) (map_option trim (g_action g))"

text \<open>The check mark that marks a label with a guard or an action, in UTF-8.\<close>

definition check_mark :: string where
  "check_mark = [CHR 0xE2, CHR 0x9C, CHR 0x93]"

text \<open>\<^verbatim>\<open>processTransition\<close>: the rewritten line and the metadata afterwards.\<close>

definition processTransition ::
  "string \<Rightarrow> (string \<times> Meta) list \<Rightarrow> string \<times> (string \<times> Meta) list" where
  "processTransition ln md =
     (case match_transition ln of
        None \<Rightarrow> (ln, md)
      | Some g \<Rightarrow>
          (let trimmedEvent = trim (g_event g);
               simplifiedLabel =
                 (if g_guard g \<noteq> None \<or> g_action g \<noteq> None
                  then trimmedEvent @ '' '' @ check_mark else trimmedEvent)
           in (g_indent g @ g_source g @ '' --> '' @ g_target g @ '' : '' @ simplifiedLabel,
               map_set (transition_key g) (transition_meta g) md)))"

text \<open>
  The block \<^verbatim>\<open>if (inStateBlock && currentState)\<close> of the loop body. \<open>None\<close>: the block
  falls through to the code after it. \<open>Some\<close>: the block ends the iteration, with the
  next state or with the \<^verbatim>\<open>TypeError\<close> that \<^verbatim>\<open>metadata.get(currentState).entry.push\<close>
  (or \<^verbatim>\<open>.exit\<close>, \<^verbatim>\<open>.internal\<close>) throws when the value stored under the name of the
  open block has no such array.
\<close>

definition state_block_line :: "pstate \<Rightarrow> string \<Rightarrow> (error + pstate) option" where
  "state_block_line st trimmedLine =
     (case currentState st of
        None \<Rightarrow> None
      | Some cur \<Rightarrow>
          if \<not> inStateBlock st \<or> cur = [] then None
          else if startsWith trimmedLine ''entry:''
          then (let action = trim (drop 6 trimmedLine)
                in Some (case map_of (metadata st) cur of
                     Some (StateMeta en ex inl) \<Rightarrow>
                       Inr (st\<lparr>metadata := map_set cur (StateMeta (en @ [action]) ex inl) (metadata st),
                               outputLines := outputLines st @
                                 [stateIndent st @ ''    %% entry: '' @ action]\<rparr>)
                   | _ \<Rightarrow> Inl TypeError))
          else if startsWith trimmedLine ''exit:''
          then (let action = trim (drop 5 trimmedLine)
                in Some (case map_of (metadata st) cur of
                     Some (StateMeta en ex inl) \<Rightarrow>
                       Inr (st\<lparr>metadata := map_set cur (StateMeta en (ex @ [action]) inl) (metadata st),
                               outputLines := outputLines st @
                                 [stateIndent st @ ''    %% exit: '' @ action]\<rparr>)
                   | _ \<Rightarrow> Inl TypeError))
          else if str_includes trimmedLine '':'' \<and> \<not> str_includes trimmedLine ''-->''
          then (case match_internal trimmedLine of
                  None \<Rightarrow> None
                | Some ia \<Rightarrow>
                    Some (case map_of (metadata st) cur of
                      Some (StateMeta en ex inl) \<Rightarrow>
                        Inr (st\<lparr>metadata := map_set cur (StateMeta en ex (inl @ [ia])) (metadata st),
                                outputLines := outputLines st @
                                  [stateIndent st @ ''    %% internal: '' @ trimmedLine]\<rparr>)
                    | _ \<Rightarrow> Inl TypeError))
          else None)"

text \<open>One iteration of the loop of \<^verbatim>\<open>preprocess\<close>, for the line \<open>ln\<close>.\<close>

definition preprocess_line :: "pstate \<Rightarrow> string \<Rightarrow> error + pstate" where
  "preprocess_line st ln =
     (if skipNextLine st then Inr (st\<lparr>skipNextLine := False\<rparr>)
      else
        (let trimmedLine = trim ln
         in case match_state_open trimmedLine of
              Some nm \<Rightarrow>
                Inr (st\<lparr>currentState := Some nm, inStateBlock := True,
                        stateIndent := takeWhile is_space ln,
                        metadata := map_set nm (StateMeta [] [] []) (metadata st),
                        outputLines := outputLines st @ [ln]\<rparr>)
            | None \<Rightarrow>
                if inStateBlock st \<and> trimmedLine = ''}''
                then Inr (st\<lparr>inStateBlock := False, currentState := None,
                             outputLines := outputLines st @ [ln]\<rparr>)
                else
                  (case state_block_line st trimmedLine of
                     Some r \<Rightarrow> r
                   | None \<Rightarrow>
                       if str_includes trimmedLine ''-->''
                       then (case processTransition ln (metadata st) of
                               (processedLine, md) \<Rightarrow>
                                 Inr (st\<lparr>metadata := md,
                                         outputLines := outputLines st @ [processedLine]\<rparr>))
                       else if str_includes trimmedLine ''[H]'' \<or> str_includes trimmedLine ''[H*]''
                       then (let historyType =
                                   (if str_includes trimmedLine ''[H*]'' then ''deep''
                                    else ''shallow'');
                                 n = stateCounter st + 1;
                                 stateName = ''History_'' @ string_of_nat n
                             in Inr (st\<lparr>stateCounter := n,
                                        outputLines := outputLines st @
                                          [replace_history ln stateName],
                                        metadata := map_set stateName (HistoryMeta historyType)
                                          (metadata st)\<rparr>))
                       else Inr (st\<lparr>outputLines := outputLines st @ [ln]\<rparr>))))"

text \<open>The loop: it stops at the first iteration that throws.\<close>

fun preprocess_loop :: "pstate \<Rightarrow> string list \<Rightarrow> error + pstate" where
  "preprocess_loop st [] = Inr st"
| "preprocess_loop st (ln # lns) =
     (case preprocess_line st ln of
        Inl e \<Rightarrow> Inl e
      | Inr st' \<Rightarrow> preprocess_loop st' lns)"

text \<open>
  \<^verbatim>\<open>preprocess\<close> starts from cleared scratch state. Its result is the renderable
  diagram and the metadata; the source returns the metadata as the text
  \<^verbatim>\<open>JSON.stringify(Object.fromEntries(this.metadata), null, 2)\<close> inside a comment, the
  model returns the entries themselves.
\<close>

record PreprocessResult =
  mermaidDiagram :: string
  metadata_entries :: "(string \<times> Meta) list"

definition initial_pstate :: pstate where
  "initial_pstate =
     \<lparr>metadata = [], stateCounter = 0, outputLines = [], inStateBlock = False,
      currentState = None, stateIndent = [], skipNextLine = False\<rparr>"

definition preprocess :: "string \<Rightarrow> error + PreprocessResult" where
  "preprocess content =
     (case preprocess_loop initial_pstate (split_lines content) of
        Inl e \<Rightarrow> Inl e
      | Inr st \<Rightarrow>
          Inr \<lparr>mermaidDiagram = join_lines (outputLines st),
               metadata_entries = metadata st\<rparr>)"

section \<open>Properties of the preprocessor\<close>

subsection \<open>The metadata map and the loop\<close>

lemma map_of_map_set: "map_of (map_set k v m) k' = (if k' = k then Some v else map_of m k')"
  by (induction m) auto

lemma keys_map_set:
  "map fst (map_set k v m) = (if k \<in> set (map fst m) then map fst m else map fst m @ [k])"
proof (induction m)
  case Nil
  show ?case by simp
next
  case (Cons a m)
  obtain k' v' where a: "a = (k', v')" by (cases a)
  show ?case
  proof (cases "k' = k")
    case True
    then show ?thesis by (simp add: a)
  next
    case False
    with Cons show ?thesis by (simp add: a)
  qed
qed

lemma distinct_map_set: "distinct (map fst m) \<Longrightarrow> distinct (map fst (map_set k v m))"
  by (simp add: keys_map_set)

lemma preprocess_loop_append:
  "preprocess_loop st (xs @ ys) =
     (case preprocess_loop st xs of Inl e \<Rightarrow> Inl e | Inr st' \<Rightarrow> preprocess_loop st' ys)"
  by (induction xs arbitrary: st) (auto split: sum.splits)

subsection \<open>A line that matches the transition pattern is handled as a transition\<close>

lemma startsWith_append: "startsWith (p @ r) p"
  by (induction p) auto

lemma startsWith_D: "startsWith s p \<Longrightarrow> \<exists>r. s = p @ r"
  by (induction s p rule: startsWith.induct) auto

lemma str_includes_suffix: "startsWith ys p \<Longrightarrow> str_includes (xs @ ys) p"
proof (induction xs)
  case Nil
  then show ?case by (cases ys; cases p) auto
next
  case (Cons x xs)
  then show ?case by simp
qed

lemma str_includes_dropWhile:
  "startsWith (dropWhile P (dropWhile Q s)) p \<Longrightarrow> str_includes s p"
proof -
  assume a: "startsWith (dropWhile P (dropWhile Q s)) p"
  have "s = (takeWhile Q s @ takeWhile P (dropWhile Q s)) @ dropWhile P (dropWhile Q s)"
    by simp
  then show ?thesis using str_includes_suffix [OF a] by metis
qed

lemma space_not_word: "is_space c \<Longrightarrow> \<not> is_word c"
  by (auto simp: is_space_def is_word_def is_upper_def is_lower_def is_digit_def)

lemma rtrim_append:
  "a \<noteq> [] \<Longrightarrow> \<not> is_space (last a) \<Longrightarrow>
   rev (dropWhile is_space (rev (a @ b))) = a @ rev (dropWhile is_space (rev b))"
  by (cases a rule: rev_cases) (auto simp: dropWhile_append)

text \<open>What a line that matches the transition pattern looks like after \<open>trim\<close>.\<close>

lemma match_transition_trim:
  assumes "match_transition ln = Some g"
  shows "takeWhile is_word (trim ln) \<noteq> [] \<and>
         startsWith (dropWhile is_space (dropWhile is_word (trim ln))) ''-->''"
proof -
  define r0 where "r0 = dropWhile is_space ln"
  define src where "src = takeWhile is_word r0"
  define w1 where "w1 = takeWhile is_space (dropWhile is_word r0)"
  define r1 where "r1 = dropWhile is_space (dropWhile is_word r0)"
  from assms have src: "src \<noteq> []" and arrow: "startsWith r1 ''-->''"
    by (auto simp: match_transition_def Let_def r0_def src_def r1_def split: if_splits)
  from startsWith_D [OF arrow] obtain q where q: "r1 = ''-->'' @ q" by blast
  have r0: "r0 = (src @ w1 @ ''-->'') @ q"
    unfolding src_def w1_def using q [unfolded r1_def]
    by (metis append.assoc takeWhile_dropWhile_id)
  have "trim ln = rev (dropWhile is_space (rev r0))" by (simp add: trim_def r0_def)
  also have "\<dots> = (src @ w1 @ ''-->'') @ rev (dropWhile is_space (rev q))"
    unfolding r0 by (rule rtrim_append) (simp_all add: is_space_def)
  finally have tr: "trim ln = src @ w1 @ ''-->'' @ rev (dropWhile is_space (rev q))" by simp
  have srcw: "\<forall>c\<in>set src. is_word c" unfolding src_def by (auto dest: set_takeWhileD)
  have w1s: "\<forall>c\<in>set w1. is_space c" unfolding w1_def by (auto dest: set_takeWhileD)
  have nw: "\<not> is_word (hd (w1 @ ''-->'' @ y))" for y
  proof (cases w1)
    case Nil
    then show ?thesis by (simp add: is_word_def is_upper_def is_lower_def is_digit_def)
  next
    case (Cons a l)
    with w1s have "is_space a" by simp
    with Cons show ?thesis by (simp add: space_not_word)
  qed
  have tw: "takeWhile is_word (trim ln) = src"
    unfolding tr using srcw nw by (subst takeWhile_append2) (auto simp: takeWhile_eq_Nil_iff)
  have dw: "dropWhile is_word (trim ln) = w1 @ ''-->'' @ rev (dropWhile is_space (rev q))"
    unfolding tr using srcw nw
    by (subst dropWhile_append2) (auto simp: dropWhile_eq_self_iff)
  have "dropWhile is_space (dropWhile is_word (trim ln)) =
      ''-->'' @ rev (dropWhile is_space (rev q))"
    unfolding dw using w1s by (subst dropWhile_append2) (auto simp: is_space_def)
  with tw src show ?thesis by simp
qed


lemma arrow_not_word: "startsWith s ''-->'' \<Longrightarrow> takeWhile is_word s = []"
  by (auto dest!: startsWith_D simp: is_word_def is_upper_def is_lower_def is_digit_def)

lemma no_state_open:
  assumes "startsWith (dropWhile is_space (dropWhile is_word tr)) ''-->''"
  shows "match_state_open tr = None"
proof (cases "startsWith tr ''state''")
  case False
  then show ?thesis by (simp add: match_state_open_def)
next
  case True
  then obtain r where r: "tr = ''state'' @ r" by (blast dest: startsWith_D)
  have dw: "dropWhile is_word tr = dropWhile is_word r"
    by (simp add: r is_word_def is_upper_def is_lower_def is_digit_def)
  show ?thesis
  proof (cases "takeWhile is_space r = []")
    case True
    then show ?thesis by (simp add: match_state_open_def r Let_def)
  next
    case False
    then obtain c cs where c: "r = c # cs" "is_space c"
      by (cases r) (auto split: if_splits)
    then have "dropWhile is_word r = r" by (simp add: space_not_word)
    with assms dw have "takeWhile is_word (dropWhile is_space r) = []"
      by (simp add: arrow_not_word)
    then show ?thesis by (simp add: match_state_open_def r Let_def)
  qed
qed

lemma no_entry_exit:
  assumes "startsWith (dropWhile is_space (dropWhile is_word tr)) ''-->''"
  shows "\<not> startsWith tr ''entry:''" and "\<not> startsWith tr ''exit:''"
proof -
  show "\<not> startsWith tr ''entry:''"
  proof
    assume "startsWith tr ''entry:''"
    then obtain r where "tr = ''entry:'' @ r" by (blast dest: startsWith_D)
    with assms show False
      by (simp add: is_word_def is_upper_def is_lower_def is_digit_def is_space_def)
  qed
  show "\<not> startsWith tr ''exit:''"
  proof
    assume "startsWith tr ''exit:''"
    then obtain r where "tr = ''exit:'' @ r" by (blast dest: startsWith_D)
    with assms show False
      by (simp add: is_word_def is_upper_def is_lower_def is_digit_def is_space_def)
  qed
qed

lemma preprocess_line_transition:
  assumes "match_transition ln = Some g" and "\<not> skipNextLine st"
  shows "preprocess_line st ln =
     Inr (st\<lparr>metadata := map_set (transition_key g) (transition_meta g) (metadata st),
             outputLines := outputLines st @ [fst (processTransition ln (metadata st))]\<rparr>)"
proof -
  from match_transition_trim [OF assms(1)]
  have w: "takeWhile is_word (trim ln) \<noteq> []"
    and a: "startsWith (dropWhile is_space (dropWhile is_word (trim ln))) ''-->''" by simp_all
  have 1: "match_state_open (trim ln) = None" using a by (rule no_state_open)
  have 2: "trim ln \<noteq> ''}''"
    using w by (auto simp: is_word_def is_upper_def is_lower_def is_digit_def)
  have inc: "str_includes (trim ln) ''-->''" using a by (rule str_includes_dropWhile)
  have 3: "state_block_line st (trim ln) = None"
    using no_entry_exit [OF a] inc by (simp add: state_block_line_def split: option.splits)
  show ?thesis
    using assms 1 2 3 inc
    by (simp add: preprocess_line_def Let_def processTransition_def)
qed

subsection \<open>What an iteration does to the metadata\<close>

lemma state_block_line_effect:
  assumes "state_block_line st tr = Some (Inr st')"
  shows "skipNextLine st' = skipNextLine st"
    and "distinct (map fst (metadata st)) \<Longrightarrow> distinct (map fst (metadata st'))"
    and "map_of (metadata st) k = Some (TransitionMeta a b c d e) \<Longrightarrow>
         map_of (metadata st') k = map_of (metadata st) k"
  using assms
  by (auto simp: state_block_line_def Let_def map_of_map_set distinct_map_set
      split: option.splits if_splits Meta.splits)

text \<open>The key of a transition is never the key of a history marker.\<close>

lemma string_of_nat_digits: "c \<in> set (string_of_nat n) \<Longrightarrow> is_digit c"
proof (induction n rule: string_of_nat.induct)
  case (1 n)
  have d: "is_digit (digit_char (n mod 10))"
    by (simp add: is_digit_def digit_char_def)
  from "1.prems" "1.IH" d show ?case
    by (subst (asm) string_of_nat.simps) (auto simp: Let_def split: if_splits)
qed

lemma no_underscore_no_to: "\<forall>c\<in>set ds. c \<noteq> CHR ''_'' \<Longrightarrow> \<not> str_includes ds ''_to_''"
  by (induction ds) auto

lemma history_key_no_to: "\<not> str_includes (''History_'' @ string_of_nat n) ''_to_''"
proof -
  have digits: "\<forall>c\<in>set (string_of_nat n). is_digit c"
    by (simp add: string_of_nat_digits)
  then have "\<forall>c\<in>set (string_of_nat n). c \<noteq> CHR ''_''"
    by (auto simp: is_digit_def)
  then have a: "\<not> str_includes (string_of_nat n) ''_to_''" by (rule no_underscore_no_to)
  have b: "\<not> startsWith (string_of_nat n) ''to_''"
    using digits by (cases "string_of_nat n") (auto simp: is_digit_def)
  from a b show ?thesis by simp
qed

lemma transition_key_not_history: "transition_key g \<noteq> ''History_'' @ string_of_nat n"
proof
  assume eq: "transition_key g = ''History_'' @ string_of_nat n"
  have "str_includes (g_source g @ ''_to_'' @ g_target g @ ''_'' @ trim (g_event g)) ''_to_''"
    by (rule str_includes_suffix) simp
  then have "str_includes (transition_key g) ''_to_''" by (simp add: transition_key_def)
  with eq history_key_no_to [of n] show False by simp
qed

lemma preprocess_line_keeps:
  assumes "map_of (metadata st) k = Some (TransitionMeta a b c d e)"
    and "preprocess_line st ln = Inr st'"
    and "match_state_open (trim ln) \<noteq> Some k"
    and "\<forall>g'. match_transition ln = Some g' \<longrightarrow> transition_key g' \<noteq> k"
    and "\<forall>n. k \<noteq> ''History_'' @ string_of_nat n"
  shows "map_of (metadata st') k = map_of (metadata st) k"
proof -
  show ?thesis
  proof (cases "state_block_line st (trim ln)")
    case None
    with assms(2,3,4,5) show ?thesis
      by (auto simp: preprocess_line_def Let_def processTransition_def map_of_map_set
          split: if_splits option.splits prod.splits)
  next
    case (Some r)
    show ?thesis
    proof (cases "skipNextLine st \<or> match_state_open (trim ln) \<noteq> None \<or>
        (inStateBlock st \<and> trim ln = ''}'')")
      case True
      with assms(2,3) show ?thesis
        by (auto simp: preprocess_line_def Let_def map_of_map_set split: if_splits option.splits)
    next
      case False
      with Some assms(2) have "state_block_line st (trim ln) = Some (Inr st')"
        by (auto simp: preprocess_line_def Let_def split: if_splits option.splits)
      from state_block_line_effect(3) [OF this assms(1)] show ?thesis .
    qed
  qed
qed

lemma preprocess_line_invariant:
  assumes "preprocess_line st ln = Inr st'"
    and "distinct (map fst (metadata st))" and "\<not> skipNextLine st"
  shows "distinct (map fst (metadata st')) \<and> \<not> skipNextLine st'"
proof (cases "state_block_line st (trim ln)")
  case None
  with assms show ?thesis
    by (auto simp: preprocess_line_def Let_def processTransition_def distinct_map_set
        split: if_splits option.splits prod.splits)
next
  case (Some r)
  show ?thesis
  proof (cases "match_state_open (trim ln) \<noteq> None \<or> (inStateBlock st \<and> trim ln = ''}'')")
    case True
    with assms show ?thesis
      by (auto simp: preprocess_line_def Let_def distinct_map_set split: if_splits option.splits)
  next
    case False
    with Some assms have "state_block_line st (trim ln) = Some (Inr st')"
      by (auto simp: preprocess_line_def Let_def split: if_splits option.splits)
    from state_block_line_effect(1,2) [OF this] assms(2,3) show ?thesis by simp
  qed
qed


lemma preprocess_loop_invariant:
  "preprocess_loop st lns = Inr st' \<Longrightarrow> distinct (map fst (metadata st)) \<Longrightarrow>
   \<not> skipNextLine st \<Longrightarrow> distinct (map fst (metadata st')) \<and> \<not> skipNextLine st'"
proof (induction lns arbitrary: st)
  case Nil
  then show ?case by simp
next
  case (Cons ln lns)
  from Cons.prems(1) obtain st1 where st1: "preprocess_line st ln = Inr st1"
      "preprocess_loop st1 lns = Inr st'"
    by (auto split: sum.splits)
  from preprocess_line_invariant [OF st1(1) Cons.prems(2,3)] Cons.IH [OF st1(2)]
  show ?case by simp
qed

lemma preprocess_loop_keeps:
  "preprocess_loop st lns = Inr st' \<Longrightarrow>
   map_of (metadata st) k = Some (TransitionMeta a b c d e) \<Longrightarrow>
   \<forall>ln\<in>set lns. match_state_open (trim ln) \<noteq> Some k \<and>
      (\<forall>g'. match_transition ln = Some g' \<longrightarrow> transition_key g' \<noteq> k) \<Longrightarrow>
   \<forall>n. k \<noteq> ''History_'' @ string_of_nat n \<Longrightarrow>
   map_of (metadata st') k = Some (TransitionMeta a b c d e)"
proof (induction lns arbitrary: st)
  case Nil
  then show ?case by simp
next
  case (Cons ln lns)
  from Cons.prems(1) obtain st1 where st1: "preprocess_line st ln = Inr st1"
      "preprocess_loop st1 lns = Inr st'"
    by (auto split: sum.splits)
  have "map_of (metadata st1) k = map_of (metadata st) k"
    using Cons.prems(2) st1(1) Cons.prems(3,4) by (intro preprocess_line_keeps) auto
  with Cons.prems(2) have "map_of (metadata st1) k = Some (TransitionMeta a b c d e)" by simp
  with st1(2) Cons.prems(3,4) show ?case by (intro Cons.IH) auto
qed

subsection \<open>One entry per source, target and event\<close>

text \<open>
  A transition line is stored under \<^verbatim>\<open>source_to_target_event\<close>, a key made of the source,
  the target and the trimmed event only. Let \<open>ln\<close> be a line of an input of ASCII text
  that matches the transition pattern, and let no later line store under the same key:
  no later transition line with that key, and no later line that opens a state block of
  that name. If \<^verbatim>\<open>preprocess\<close> returns, the returned metadata has distinct keys and maps
  the key to the record of \<open>ln\<close>: its guard and its action. An earlier line with the same
  source, target and event has the same key, and when its guard or action differs, its
  record is not in the returned metadata.
\<close>

lemma later_transition_line_wins:
  assumes "split_lines content = before @ ln # after"
    and "match_transition ln = Some g"
    and "\<forall>ln'\<in>set after. match_state_open (trim ln') \<noteq> Some (transition_key g) \<and>
           (\<forall>g'. match_transition ln' = Some g' \<longrightarrow> transition_key g' \<noteq> transition_key g)"
    and "preprocess content = Inr result"
    and "ascii_text content"
  shows "map_of (metadata_entries result) (transition_key g) = Some (transition_meta g) \<and>
     distinct (map fst (metadata_entries result)) \<and>
     (\<forall>ln1 g1. ln1 \<in> set before \<and> match_transition ln1 = Some g1 \<and>
        g_source g1 = g_source g \<and> g_target g1 = g_target g \<and>
        trim (g_event g1) = trim (g_event g) \<longrightarrow>
        transition_key g1 = transition_key g \<and>
        (transition_meta g1 \<noteq> transition_meta g \<longrightarrow>
           (transition_key g1, transition_meta g1) \<notin> set (metadata_entries result)))"
proof -
  from assms(4) obtain st' where run: "preprocess_loop initial_pstate (split_lines content) = Inr st'"
    and res: "metadata_entries result = metadata st'"
    by (auto simp: preprocess_def split: sum.splits)
  from run [unfolded assms(1) preprocess_loop_append] obtain st1 where
    st1: "preprocess_loop initial_pstate before = Inr st1"
    and rest: "preprocess_loop st1 (ln # after) = Inr st'"
    by (auto split: sum.splits)
  have inv1: "distinct (map fst (metadata st1)) \<and> \<not> skipNextLine st1"
    using st1 by (rule preprocess_loop_invariant) (simp_all add: initial_pstate_def)
  let ?st2 = "st1\<lparr>metadata := map_set (transition_key g) (transition_meta g) (metadata st1),
      outputLines := outputLines st1 @ [fst (processTransition ln (metadata st1))]\<rparr>"
  have step: "preprocess_line st1 ln = Inr ?st2"
    using assms(2) inv1 by (intro preprocess_line_transition) simp_all
  with rest have after: "preprocess_loop ?st2 after = Inr st'" by simp
  have stored: "map_of (metadata ?st2) (transition_key g) =
      Some (TransitionMeta (g_source g) (g_target g) (trim (g_event g))
        (map_option trim (g_guard g)) (map_option trim (g_action g)))"
    by (simp add: map_of_map_set transition_meta_def)
  have nohist: "\<forall>n. transition_key g \<noteq> ''History_'' @ string_of_nat n"
    by (rule allI) (rule transition_key_not_history)
  from preprocess_loop_keeps [OF after stored assms(3) nohist]
  have entry: "map_of (metadata st') (transition_key g) = Some (transition_meta g)"
    by (simp only: transition_meta_def)
  have dist: "distinct (map fst (metadata st'))"
    using preprocess_loop_invariant [OF run] by (simp add: initial_pstate_def)
  have only: "(transition_key g, v) \<in> set (metadata st') \<Longrightarrow> v = transition_meta g" for v
    using dist entry by (simp add: map_of_eq_Some_iff)
  have earlier: "transition_key g1 = transition_key g \<and>
        (transition_meta g1 \<noteq> transition_meta g \<longrightarrow>
           (transition_key g1, transition_meta g1) \<notin> set (metadata st'))"
    if "g_source g1 = g_source g \<and> g_target g1 = g_target g \<and>
        trim (g_event g1) = trim (g_event g)" for g1
  proof -
    from that have "transition_key g1 = transition_key g" by (simp add: transition_key_def)
    with only [of "transition_meta g1"] show ?thesis by metis
  qed
  from entry dist earlier show ?thesis
    unfolding res by blast
qed

text \<open>
  Three inputs: a state block whose name is the key of a transition line inside it; two
  transition lines that differ only in guard and action, followed by a third line; and
  the same two transition lines, followed by a state block whose name is their key.
\<close>

definition key_collision_input :: string where
  "key_collision_input =
     ''state A_to_B_EV {'' @ [CHR 0x0A] @
     ''A --> B : EV'' @ [CHR 0x0A] @
     ''entry: init()'' @ [CHR 0x0A] @
     ''}''"

definition two_guards_input :: string where
  "two_guards_input =
     ''A --> B : GO [x > 0] / first()'' @ [CHR 0x0A] @
     ''A --> B : GO [y > 0] / second()'' @ [CHR 0x0A] @
     ''B --> A : BACK''"

definition overwritten_key_input :: string where
  "overwritten_key_input =
     ''A --> B : GO [x > 0] / first()'' @ [CHR 0x0A] @
     ''A --> B : GO [y > 0] / second()'' @ [CHR 0x0A] @
     ''state A_to_B_GO {'' @ [CHR 0x0A] @
     ''}''"

lemma later_transition_line_wins_example:
  "\<exists>result. preprocess two_guards_input = Inr result \<and>
     map_of (metadata_entries result) ''A_to_B_GO'' =
       Some (TransitionMeta ''A'' ''B'' ''GO'' (Some ''y > 0'') (Some ''second()'')) \<and>
     (''A_to_B_GO'', TransitionMeta ''A'' ''B'' ''GO'' (Some ''x > 0'') (Some ''first()''))
       \<notin> set (metadata_entries result)"
proof -
  let ?l1 = "''A --> B : GO [x > 0] / first()''"
  let ?l2 = "''A --> B : GO [y > 0] / second()''"
  let ?l3 = "''B --> A : BACK''"
  let ?g1 = "\<lparr>g_indent = [], g_source = ''A'', g_target = ''B'', g_event = ''GO '',
      g_guard = Some ''x > 0'', g_action = Some ''first()''\<rparr>"
  let ?g2 = "\<lparr>g_indent = [], g_source = ''A'', g_target = ''B'', g_event = ''GO '',
      g_guard = Some ''y > 0'', g_action = Some ''second()''\<rparr>"
  let ?g3 = "\<lparr>g_indent = [], g_source = ''B'', g_target = ''A'', g_event = ''BACK'',
      g_guard = None, g_action = None\<rparr>"
  have lines: "split_lines two_guards_input = [?l1] @ ?l2 # [?l3]" by code_simp
  have m1: "match_transition ?l1 = Some ?g1" by code_simp
  have m2: "match_transition ?l2 = Some ?g2" by code_simp
  have m3: "match_transition ?l3 = Some ?g3" by code_simp
  have k1: "transition_key ?g1 = ''A_to_B_GO''" by code_simp
  have k2: "transition_key ?g2 = ''A_to_B_GO''" by code_simp
  have k3: "transition_key ?g3 = ''B_to_A_BACK''" by code_simp
  have t1: "transition_meta ?g1 = TransitionMeta ''A'' ''B'' ''GO'' (Some ''x > 0'') (Some ''first()'')"
    by code_simp
  have t2: "transition_meta ?g2 = TransitionMeta ''A'' ''B'' ''GO'' (Some ''y > 0'') (Some ''second()'')"
    by code_simp
  have o3: "match_state_open (trim ?l3) = None" by code_simp
  have later: "\<forall>ln'\<in>set [?l3]. match_state_open (trim ln') \<noteq> Some (transition_key ?g2) \<and>
           (\<forall>g'. match_transition ln' = Some g' \<longrightarrow> transition_key g' \<noteq> transition_key ?g2)"
    using k3 by (auto simp: o3 m3 k2)
  have "preprocess two_guards_input =
      Inr \<lparr>mermaidDiagram = ''A --> B : GO '' @ check_mark @ [CHR 0x0A] @
             ''A --> B : GO '' @ check_mark @ [CHR 0x0A] @ ''B --> A : BACK'',
           metadata_entries =
             [(''A_to_B_GO'',
               TransitionMeta ''A'' ''B'' ''GO'' (Some ''y > 0'') (Some ''second()'')),
              (''B_to_A_BACK'', TransitionMeta ''B'' ''A'' ''BACK'' None None)]\<rparr>"
    by code_simp
  then obtain result where run: "preprocess two_guards_input = Inr result" ..
  have ascii: "ascii_text two_guards_input" by code_simp
  note wins = later_transition_line_wins [OF lines m2 later run ascii]
  from wins have entry: "map_of (metadata_entries result) ''A_to_B_GO'' =
       Some (TransitionMeta ''A'' ''B'' ''GO'' (Some ''y > 0'') (Some ''second()''))"
    by (simp only: k2 t2)
  from wins have "?l1 \<in> set [?l1] \<and> match_transition ?l1 = Some ?g1 \<and>
        g_source ?g1 = g_source ?g2 \<and> g_target ?g1 = g_target ?g2 \<and>
        trim (g_event ?g1) = trim (g_event ?g2) \<longrightarrow>
        transition_key ?g1 = transition_key ?g2 \<and>
        (transition_meta ?g1 \<noteq> transition_meta ?g2 \<longrightarrow>
           (transition_key ?g1, transition_meta ?g1) \<notin> set (metadata_entries result))"
    by blast
  then have "(''A_to_B_GO'', TransitionMeta ''A'' ''B'' ''GO'' (Some ''x > 0'') (Some ''first()''))
       \<notin> set (metadata_entries result)"
    by (simp add: m1 k1 k2 t1 t2)
  with run entry show ?thesis by blast
qed

text \<open>
  The first two lines of the third input are transition lines with the same source,
  target and event, the key \<^verbatim>\<open>A_to_B_GO\<close>, and different guards and actions.
\<close>

lemma overwritten_key_lines:
  "match_transition ''A --> B : GO [x > 0] / first()'' =
     Some \<lparr>g_indent = [], g_source = ''A'', g_target = ''B'', g_event = ''GO '',
           g_guard = Some ''x > 0'', g_action = Some ''first()''\<rparr> \<and>
   match_transition ''A --> B : GO [y > 0] / second()'' =
     Some \<lparr>g_indent = [], g_source = ''A'', g_target = ''B'', g_event = ''GO '',
           g_guard = Some ''y > 0'', g_action = Some ''second()''\<rparr> \<and>
   transition_key \<lparr>g_indent = [], g_source = ''A'', g_target = ''B'', g_event = ''GO '',
           g_guard = Some ''y > 0'', g_action = Some ''second()''\<rparr> = ''A_to_B_GO''"
proof -
  have "match_transition ''A --> B : GO [x > 0] / first()'' =
     Some \<lparr>g_indent = [], g_source = ''A'', g_target = ''B'', g_event = ''GO '',
           g_guard = Some ''x > 0'', g_action = Some ''first()''\<rparr>"
    by code_simp
  moreover have "match_transition ''A --> B : GO [y > 0] / second()'' =
     Some \<lparr>g_indent = [], g_source = ''A'', g_target = ''B'', g_event = ''GO '',
           g_guard = Some ''y > 0'', g_action = Some ''second()''\<rparr>"
    by code_simp
  moreover have "transition_key \<lparr>g_indent = [], g_source = ''A'', g_target = ''B'',
      g_event = ''GO '', g_guard = Some ''y > 0'', g_action = Some ''second()''\<rparr> = ''A_to_B_GO''"
    by code_simp
  ultimately show ?thesis by (intro conjI)
qed

text \<open>
  Claim C10 says that of two transition lines with the same source, target and event the
  returned metadata holds, under their key, the guard and the action of the later line.
  On the third input it does not. \<^verbatim>\<open>preprocess\<close> returns, and both transition lines have
  been rewritten; but the line \<^verbatim>\<open>state A_to_B_GO {\<close> has stored the empty record of a state
  block under the same key of the same map, over the record of the later transition
  line. The returned metadata has one entry under the key, and it holds neither line's
  guard or action.
\<close>

theorem state_block_overwrites_transition:
  "preprocess overwritten_key_input =
     Inr \<lparr>mermaidDiagram =
            ''A --> B : GO '' @ check_mark @ [CHR 0x0A] @
            ''A --> B : GO '' @ check_mark @ [CHR 0x0A] @
            ''state A_to_B_GO {'' @ [CHR 0x0A] @
            ''}'',
          metadata_entries = [(''A_to_B_GO'', StateMeta [] [] [])]\<rparr>"
  by code_simp

subsection \<open>Lines of no recognised shape\<close>

text \<open>
  A line of none of the shapes the loop tests for: its trimmed text does not open a state
  block, is not a lone closing brace, does not start with \<^verbatim>\<open>entry:\<close> or \<^verbatim>\<open>exit:\<close>, is not an
  internal transition (a colon, no arrow, and a word after the colon), and contains
  neither an arrow nor a history marker. The tests are those of the loop, taken without
  regard to whether a state block is open.
\<close>

definition plain_line :: "string \<Rightarrow> bool" where
  "plain_line ln =
     (let trimmedLine = trim ln
      in match_state_open trimmedLine = None \<and> trimmedLine \<noteq> ''}'' \<and>
         \<not> startsWith trimmedLine ''entry:'' \<and> \<not> startsWith trimmedLine ''exit:'' \<and>
         \<not> (str_includes trimmedLine '':'' \<and> \<not> str_includes trimmedLine ''-->'' \<and>
            match_internal trimmedLine \<noteq> None) \<and>
         \<not> str_includes trimmedLine ''-->'' \<and>
         \<not> str_includes trimmedLine ''[H]'' \<and> \<not> str_includes trimmedLine ''[H*]'')"

text \<open>Such a line is pushed as it is, and nothing else changes.\<close>

lemma preprocess_line_plain:
  assumes "plain_line ln" and "\<not> skipNextLine st"
  shows "preprocess_line st ln = Inr (st\<lparr>outputLines := outputLines st @ [ln]\<rparr>)"
proof -
  from assms(1) have "state_block_line st (trim ln) = None"
    by (auto simp: plain_line_def Let_def state_block_line_def split: option.splits)
  with assms show ?thesis
    by (simp add: plain_line_def Let_def preprocess_line_def)
qed

text \<open>Every iteration that does not throw pushes one line.\<close>

lemma state_block_line_one:
  "state_block_line st tr = Some (Inr st') \<Longrightarrow> \<exists>out. outputLines st' = outputLines st @ [out]"
  by (auto simp: state_block_line_def Let_def split: option.splits if_splits Meta.splits)

lemma preprocess_line_one:
  assumes "preprocess_line st ln = Inr st'" and "\<not> skipNextLine st"
  shows "\<exists>out. outputLines st' = outputLines st @ [out]"
proof (cases "state_block_line st (trim ln)")
  case None
  with assms show ?thesis
    by (auto simp: preprocess_line_def Let_def split: if_splits option.splits prod.splits)
next
  case (Some r)
  show ?thesis
  proof (cases "match_state_open (trim ln) \<noteq> None \<or> (inStateBlock st \<and> trim ln = ''}'')")
    case True
    with assms show ?thesis
      by (auto simp: preprocess_line_def Let_def split: if_splits option.splits)
  next
    case False
    with Some assms have "state_block_line st (trim ln) = Some (Inr st')"
      by (auto simp: preprocess_line_def Let_def split: if_splits option.splits)
    then show ?thesis by (rule state_block_line_one)
  qed
qed

text \<open>
  No pushed line holds a line feed: the characters of a pushed line come from the input
  line, from the indentation of the open state block, or from fixed text. So the lines
  of the joined output are the pushed lines.
\<close>

abbreviation LF :: char where
  "LF \<equiv> CHR 0x0A"

lemma split_lines_no_LF: "l \<in> set (split_lines s) \<Longrightarrow> LF \<notin> set l"
  by (induction s arbitrary: l) (auto split: list.splits if_splits)

lemma split_lines_append: "LF \<notin> set l \<Longrightarrow> split_lines (l @ LF # s) = l # split_lines s"
  by (induction l) (auto split: list.splits)

lemma split_lines_single: "LF \<notin> set l \<Longrightarrow> split_lines l = [l]"
  by (induction l) (auto split: list.splits)

lemma split_join_lines:
  "ls \<noteq> [] \<Longrightarrow> \<forall>l\<in>set ls. LF \<notin> set l \<Longrightarrow> split_lines (join_lines ls) = ls"
  by (induction ls rule: join_lines.induct) (auto simp: split_lines_single split_lines_append)

lemma split_lines_not_Nil: "split_lines s \<noteq> []"
  by (induction s) (auto split: list.splits)

lemma set_trim: "set (trim s) \<subseteq> set s"
proof -
  have "set (trim s) = set (dropWhile is_space (rev (dropWhile is_space s)))"
    by (simp add: trim_def)
  also have "\<dots> \<subseteq> set (rev (dropWhile is_space s))" by (rule set_dropWhileD [THEN subsetI])
  also have "\<dots> \<subseteq> set s" by (auto dest: set_dropWhileD)
  finally show ?thesis .
qed

lemma set_replace_history: "set (replace_history s r) \<subseteq> set s \<union> set r"
proof (induction s)
  case Nil
  show ?case by simp
next
  case (Cons c cs)
  from Cons show ?case by (auto dest: in_set_dropD)
qed

lemma string_of_nat_no_LF: "LF \<notin> set (string_of_nat n)"
  using string_of_nat_digits [of LF n] by (auto simp: is_digit_def)

lemma transition_label_chars:
  assumes a: "transition_label r = Some (ev, g, a)"
  shows "set ev \<subseteq> set r"
proof -
  let ?m = "takeWhile (\<lambda>c. c \<noteq> CHR ''['' \<and> c \<noteq> CHR ''/'') r"
  from a have m: "?m \<noteq> []"
    by (simp add: transition_label_def Let_def split: if_splits)
  from a have ev: "ev = (if dropWhile is_space ?m = [] then [last ?m] else dropWhile is_space ?m)"
    by (simp add: transition_label_def Let_def del: dropWhile_eq_Nil_conv
        split: if_split_asm list.splits option.splits)
  have "set ev \<subseteq> set ?m"
    unfolding ev using m by (auto dest: set_dropWhileD)
  also have "\<dots> \<subseteq> set r" by (auto dest: set_takeWhileD)
  finally show ?thesis .
qed

lemma match_transition_chars:
  assumes "match_transition ln = Some g"
  shows "set (g_indent g) \<union> set (g_source g) \<union> set (g_target g) \<union> set (g_event g) \<subseteq> set ln"
proof -
  define r0 where "r0 = dropWhile is_space ln"
  define r1 where "r1 = dropWhile is_space (dropWhile is_word r0)"
  define r2 where "r2 = dropWhile is_space (drop 3 r1)"
  define r3 where "r3 = dropWhile is_space (dropWhile is_word r2)"
  have s0: "set r0 \<subseteq> set ln" unfolding r0_def by (auto dest: set_dropWhileD)
  have s1: "set r1 \<subseteq> set r0" unfolding r1_def by (auto dest: set_dropWhileD)
  have s2: "set r2 \<subseteq> set r1" unfolding r2_def by (auto dest: set_dropWhileD in_set_dropD)
  have s3: "set r3 \<subseteq> set r2" unfolding r3_def by (auto dest: set_dropWhileD)
  have unf: "match_transition ln =
      (if takeWhile is_word r0 = [] \<or> \<not> startsWith r1 ''-->'' \<or> takeWhile is_word r2 = [] then None
         else (case r3 of
                 [] \<Rightarrow> None
               | c # r \<Rightarrow>
                   if c = CHR '':''
                   then (case transition_label r of
                           Some (ev, g, a) \<Rightarrow>
                             Some \<lparr>g_indent = takeWhile is_space ln, g_source = takeWhile is_word r0,
                                   g_target = takeWhile is_word r2,
                                   g_event = ev, g_guard = g, g_action = a\<rparr>
                         | None \<Rightarrow> None)
                   else None))"
    unfolding match_transition_def Let_def r0_def r1_def r2_def r3_def ..
  from assms have eq: "(case r3 of
                 [] \<Rightarrow> None
               | c # r \<Rightarrow>
                   if c = CHR '':''
                   then (case transition_label r of
                           Some (ev, g, a) \<Rightarrow>
                             Some \<lparr>g_indent = takeWhile is_space ln, g_source = takeWhile is_word r0,
                                   g_target = takeWhile is_word r2,
                                   g_event = ev, g_guard = g, g_action = a\<rparr>
                         | None \<Rightarrow> None)
                   else None) = Some g"
    unfolding unf by (simp split: if_split_asm)
  then obtain c r where r3: "r3 = c # r" by (cases r3) auto
  with eq have eq2: "(case transition_label r of
                           Some (ev, g, a) \<Rightarrow>
                             Some \<lparr>g_indent = takeWhile is_space ln, g_source = takeWhile is_word r0,
                                   g_target = takeWhile is_word r2,
                                   g_event = ev, g_guard = g, g_action = a\<rparr>
                         | None \<Rightarrow> None) = Some g"
    by (simp split: if_split_asm)
  then obtain ev gd ac where l: "transition_label r = Some (ev, gd, ac)"
    by (cases "transition_label r") auto
  with eq2 have geq: "g = \<lparr>g_indent = takeWhile is_space ln, g_source = takeWhile is_word r0,
                                   g_target = takeWhile is_word r2,
                                   g_event = ev, g_guard = gd, g_action = ac\<rparr>"
    by simp
  from transition_label_chars [OF l] r3 have "set ev \<subseteq> set r3" by auto
  with s0 s1 s2 s3 have "set r2 \<subseteq> set ln" "set ev \<subseteq> set ln" by blast+
  moreover have "set (takeWhile is_word r2) \<subseteq> set r2" "set (takeWhile is_word r0) \<subseteq> set r0"
    "set (takeWhile is_space ln) \<subseteq> set ln"
    by (auto dest: set_takeWhileD)
  ultimately show ?thesis
    unfolding geq using s0 by auto
qed

lemma processTransition_no_LF:
  assumes "LF \<notin> set ln"
  shows "LF \<notin> set (fst (processTransition ln md))"
proof (cases "match_transition ln")
  case None
  with assms show ?thesis by (simp add: processTransition_def)
next
  case (Some g)
  from match_transition_chars [OF Some] assms
  have "LF \<notin> set (g_indent g)" "LF \<notin> set (g_source g)" "LF \<notin> set (g_target g)"
    "LF \<notin> set (trim (g_event g))"
    using set_trim [of "g_event g"] by auto
  with Some show ?thesis
    by (simp add: processTransition_def Let_def check_mark_def)
qed

lemma state_block_line_no_LF:
  assumes "state_block_line st tr = Some (Inr st')" and "LF \<notin> set tr"
    and "LF \<notin> set (stateIndent st)"
  shows "LF \<notin> set (last (outputLines st')) \<and> stateIndent st' = stateIndent st"
proof -
  have "LF \<notin> set (trim (drop n tr))" for n
    using set_trim [of "drop n tr"] set_drop_subset [of n tr] assms(2) by auto
  with assms show ?thesis
    by (auto simp: state_block_line_def Let_def split: option.splits if_splits Meta.splits)
qed

lemma preprocess_line_no_LF:
  assumes "preprocess_line st ln = Inr st'" and "\<not> skipNextLine st"
    and "LF \<notin> set ln" and "LF \<notin> set (stateIndent st)"
  shows "LF \<notin> set (last (outputLines st')) \<and> LF \<notin> set (stateIndent st')"
proof -
  have tr: "LF \<notin> set (trim ln)" using set_trim [of ln] assms(3) by auto
  have ind: "LF \<notin> set (takeWhile is_space ln)" using assms(3) by (auto dest: set_takeWhileD)
  have hist: "LF \<notin> set (replace_history ln (''History_'' @ string_of_nat n))" for n
    using set_replace_history [of ln "''History_'' @ string_of_nat n"] assms(3)
      string_of_nat_no_LF [of n] by auto
  show ?thesis
  proof (cases "state_block_line st (trim ln)")
    case None
    with assms ind hist processTransition_no_LF [OF assms(3), of "metadata st"] show ?thesis
      by (auto simp: preprocess_line_def Let_def split: if_splits option.splits prod.splits)
  next
    case (Some r)
    show ?thesis
    proof (cases "match_state_open (trim ln) \<noteq> None \<or> (inStateBlock st \<and> trim ln = ''}'')")
      case True
      with assms ind show ?thesis
        by (auto simp: preprocess_line_def Let_def split: if_splits option.splits)
    next
      case False
      with Some assms have "state_block_line st (trim ln) = Some (Inr st')"
        by (auto simp: preprocess_line_def Let_def split: if_splits option.splits)
      from state_block_line_no_LF [OF this tr assms(4)] assms(4) show ?thesis by simp
    qed
  qed
qed

lemma preprocess_loop_lines:
  "preprocess_loop st lns = Inr st' \<Longrightarrow> \<not> skipNextLine st \<Longrightarrow>
   distinct (map fst (metadata st)) \<Longrightarrow> LF \<notin> set (stateIndent st) \<Longrightarrow>
   \<forall>l\<in>set lns. LF \<notin> set l \<Longrightarrow>
   \<exists>outs. outputLines st' = outputLines st @ outs \<and> length outs = length lns \<and>
     (\<forall>l\<in>set outs. LF \<notin> set l) \<and>
     (\<forall>i<length lns. plain_line (lns ! i) \<longrightarrow> outs ! i = lns ! i)"
proof (induction lns arbitrary: st)
  case Nil
  then show ?case by simp
next
  case (Cons ln lns)
  from Cons.prems(1) obtain st1 where st1: "preprocess_line st ln = Inr st1"
      "preprocess_loop st1 lns = Inr st'"
    by (auto split: sum.splits)
  from preprocess_line_one [OF st1(1) Cons.prems(2)]
  obtain out where out: "outputLines st1 = outputLines st @ [out]" by blast
  have plain: "plain_line ln \<Longrightarrow> out = ln"
    using preprocess_line_plain [OF _ Cons.prems(2), of ln] st1(1) out by auto
  from preprocess_line_invariant [OF st1(1) Cons.prems(3,2)]
  have inv: "\<not> skipNextLine st1" "distinct (map fst (metadata st1))" by simp_all
  from preprocess_line_no_LF [OF st1(1) Cons.prems(2) _ Cons.prems(4)] Cons.prems(5) out
  have nolf: "LF \<notin> set out" "LF \<notin> set (stateIndent st1)" by simp_all
  from Cons.prems(5) have rest: "\<forall>l\<in>set lns. LF \<notin> set l" by simp
  from Cons.IH [OF st1(2) inv nolf(2) rest] obtain outs where outs:
    "outputLines st' = outputLines st1 @ outs" "length outs = length lns"
    "\<forall>l\<in>set outs. LF \<notin> set l"
    "\<forall>i<length lns. plain_line (lns ! i) \<longrightarrow> outs ! i = lns ! i" by blast
  have "\<forall>i<length (ln # lns). plain_line ((ln # lns) ! i) \<longrightarrow> (out # outs) ! i = (ln # lns) ! i"
  proof (intro allI impI)
    fix i assume "i < length (ln # lns)" "plain_line ((ln # lns) ! i)"
    then show "(out # outs) ! i = (ln # lns) ! i"
      using plain outs(4) by (cases i) auto
  qed
  with out outs(1,2,3) nolf(1) show ?case
    by (intro exI [of _ "out # outs"]) simp
qed

text \<open>
  Whenever \<^verbatim>\<open>preprocess\<close> returns on an input of ASCII text, the diagram it returns has as
  many lines as the input, and every input line of no recognised shape is at its position
  in the diagram, unchanged.
\<close>

lemma unrecognized_lines_pass_through:
  assumes "preprocess content = Inr result" and "ascii_text content"
  shows "length (split_lines (mermaidDiagram result)) = length (split_lines content) \<and>
     (\<forall>i<length (split_lines content).
        plain_line (split_lines content ! i) \<longrightarrow>
        split_lines (mermaidDiagram result) ! i = split_lines content ! i)"
proof -
  from assms(1) obtain st' where run: "preprocess_loop initial_pstate (split_lines content) = Inr st'"
    and res: "mermaidDiagram result = join_lines (outputLines st')"
    by (auto simp: preprocess_def split: sum.splits)
  have "\<forall>l\<in>set (split_lines content). LF \<notin> set l" by (simp add: split_lines_no_LF)
  with preprocess_loop_lines [OF run]
  have len: "length (outputLines st') = length (split_lines content)"
    and nolf: "\<forall>l\<in>set (outputLines st'). LF \<notin> set l"
    and same: "\<forall>i<length (split_lines content).
        plain_line (split_lines content ! i) \<longrightarrow> outputLines st' ! i = split_lines content ! i"
    by (simp_all add: initial_pstate_def)
  from len split_lines_not_Nil [of content] have "outputLines st' \<noteq> []" by auto
  from split_join_lines [OF this nolf]
  have "split_lines (join_lines (outputLines st')) = outputLines st'" .
  with len same show ?thesis by (simp add: res)
qed

definition comment_input :: string where
  "comment_input =
     ''stateDiagram-v2'' @ [CHR 0x0A] @
     ''    Idle --> Busy : START / begin()'' @ [CHR 0x0A] @
     ''    %% a remark''"

lemma unrecognized_lines_pass_through_example:
  "\<exists>result. preprocess comment_input = Inr result \<and>
     split_lines (mermaidDiagram result) ! 0 = ''stateDiagram-v2'' \<and>
     split_lines (mermaidDiagram result) ! 2 = ''    %% a remark''"
proof -
  have lines: "split_lines comment_input =
      [''stateDiagram-v2'', ''    Idle --> Busy : START / begin()'', ''    %% a remark'']"
    by code_simp
  have plain: "plain_line ''stateDiagram-v2''" "plain_line ''    %% a remark''"
    by code_simp+
  have "preprocess comment_input =
      Inr \<lparr>mermaidDiagram = ''stateDiagram-v2'' @ [CHR 0x0A] @
             ''    Idle --> Busy : START '' @ check_mark @ [CHR 0x0A] @ ''    %% a remark'',
           metadata_entries =
             [(''Idle_to_Busy_START'',
               TransitionMeta ''Idle'' ''Busy'' ''START'' None (Some ''begin()''))]\<rparr>"
    by code_simp
  then obtain result where run: "preprocess comment_input = Inr result" ..
  have ascii: "ascii_text comment_input" by code_simp
  from unrecognized_lines_pass_through [OF run ascii] plain
  have "split_lines (mermaidDiagram result) ! 0 = ''stateDiagram-v2''"
    "split_lines (mermaidDiagram result) ! 2 = ''    %% a remark''"
    by (simp_all add: lines)
  with run show ?thesis by blast
qed

subsection \<open>An input on which the preprocessor throws\<close>

text \<open>
  Claim C8 says that \<^verbatim>\<open>preprocess\<close> returns normally on every input. On this input it
  does not: the block \<^verbatim>\<open>state A_to_B_EV {\<close> stores its record under \<^verbatim>\<open>A_to_B_EV\<close>, the
  transition line \<^verbatim>\<open>A --> B : EV\<close> stores its own record under the same key, and the
  line \<^verbatim>\<open>entry: init()\<close> then reads \<^verbatim>\<open>.entry\<close> of the transition record, which is
  undefined, and calls \<^verbatim>\<open>push\<close> on it. The other half of the claim, that lines of no
  recognised shape pass through unchanged, holds on ASCII text whenever \<^verbatim>\<open>preprocess\<close>
  returns, as shown above.
\<close>

theorem preprocess_throws:
  "preprocess key_collision_input = Inl TypeError"
  by code_simp

section \<open>The structural parser\<close>

subsection \<open>The regular expressions\<close>

text \<open>
  \<^verbatim>\<open>/\[\*\]\s*-->\s*(\w+)(?:\s*:\s*(.+))?/\<close>, anchored at the start of the argument;
  the result is group 1 (the source does not use group 2).
\<close>

definition initial_at :: "string \<Rightarrow> string option" where
  "initial_at s =
     (let r = dropWhile is_space (drop 3 s);
          w = takeWhile is_word (dropWhile is_space (drop 3 r))
      in if startsWith s ''[*]'' \<and> startsWith r ''-->'' \<and> w \<noteq> [] then Some w else None)"

text \<open>\<^verbatim>\<open>/state\s+(\w+)\s*{/\<close>, anchored at the start of the argument; the result is group 1.\<close>

definition state_decl_at :: "string \<Rightarrow> string option" where
  "state_decl_at s =
     (let r = drop 5 s;
          r1 = dropWhile is_space r;
          nm = takeWhile is_word r1;
          r2 = dropWhile is_space (dropWhile is_word r1)
      in if startsWith s ''state'' \<and> takeWhile is_space r \<noteq> [] \<and> nm \<noteq> [] \<and> startsWith r2 ''{''
         then Some nm else None)"

text \<open>
  \<^verbatim>\<open>/:\s*(\w+)\s*\/\s*(.+)/\<close>, anchored at the start of the argument: a colon, a word,
  a slash and the action, which is required here. The result is groups 1 and 2.
\<close>

definition internal_transition_at :: "string \<Rightarrow> (string \<times> string) option" where
  "internal_transition_at s =
     (case s of
        [] \<Rightarrow> None
      | c # r \<Rightarrow>
          if c = CHR '':''
          then (let r1 = dropWhile is_space r;
                    ev = takeWhile is_word r1
                in if ev = [] then None
                   else (case dropWhile is_space (dropWhile is_word r1) of
                           [] \<Rightarrow> None
                         | d # u \<Rightarrow>
                             if d = CHR ''/''
                             then (case slash_group u of
                                     Some act \<Rightarrow> Some (ev, act)
                                   | None \<Rightarrow> None)
                             else None))
          else None)"

text \<open>
  The pattern of \<^verbatim>\<open>parseTransition\<close>,
  \<^verbatim>\<open>/(\w+)\s*-->\s*(\w+)(?:\s*:\s*(\w+)(?:\s*\/\s*([^[]+))?(?:\s*\[([^\]]+)\])?)?/\<close>,
  anchored at the start of the argument. \<^verbatim>\<open>arrow_action\<close> is the action group on the
  text behind the event: the action and the text behind it. The action runs up to the
  next \<^verbatim>\<open>[\<close>; when only white space stands before that, the action is the last
  character of the white space. \<^verbatim>\<open>arrow_guard\<close> is the guard group. Both are optional,
  and nothing is required behind them, so each is taken when it matches where it
  stands. \<^verbatim>\<open>arrow_label\<close> is the optional part from the colon on: event, action, guard.
\<close>

definition arrow_action :: "string \<Rightarrow> (string \<times> string) option" where
  "arrow_action x =
     (case dropWhile is_space x of
        [] \<Rightarrow> None
      | c # u \<Rightarrow>
          if c = CHR ''/''
          then (let v = takeWhile is_space u;
                    r = dropWhile is_space u;
                    a = takeWhile (\<lambda>c. c \<noteq> CHR ''['') r
                in if a \<noteq> [] then Some (a, dropWhile (\<lambda>c. c \<noteq> CHR ''['') r)
                   else if v \<noteq> [] then Some ([last v], r)
                   else None)
          else None)"

definition arrow_guard :: "string \<Rightarrow> string option" where
  "arrow_guard x =
     (case dropWhile is_space x of
        [] \<Rightarrow> None
      | c # t1 \<Rightarrow>
          if c = CHR ''[''
          then (let g = takeWhile (\<lambda>c. c \<noteq> CHR '']'') t1
                in if g \<noteq> [] \<and> dropWhile (\<lambda>c. c \<noteq> CHR '']'') t1 \<noteq> [] then Some g else None)
          else None)"

definition arrow_label :: "string \<Rightarrow> string option \<times> string option \<times> string option" where
  "arrow_label x =
     (case dropWhile is_space x of
        [] \<Rightarrow> (None, None, None)
      | c # r \<Rightarrow>
          if c = CHR '':''
          then (let r1 = dropWhile is_space r;
                    ev = takeWhile is_word r1;
                    r2 = dropWhile is_word r1
                in if ev = [] then (None, None, None)
                   else (case arrow_action r2 of
                           Some (a, r3) \<Rightarrow> (Some ev, Some a, arrow_guard r3)
                         | None \<Rightarrow> (Some ev, None, arrow_guard r2)))
          else (None, None, None))"

record ArrowGroups =
  a_source :: string
  a_target :: string
  a_event :: "string option"
  a_action :: "string option"
  a_guard :: "string option"

definition arrow_at :: "string \<Rightarrow> ArrowGroups option" where
  "arrow_at s =
     (let src = takeWhile is_word s;
          r1 = dropWhile is_space (dropWhile is_word s);
          r2 = dropWhile is_space (drop 3 r1);
          tgt = takeWhile is_word r2
      in if src = [] \<or> \<not> startsWith r1 ''-->'' \<or> tgt = [] then None
         else (case arrow_label (dropWhile is_word r2) of
                 (ev, a, g) \<Rightarrow>
                   Some \<lparr>a_source = src, a_target = tgt, a_event = ev, a_action = a,
                         a_guard = g\<rparr>))"

subsection \<open>The state tree under construction\<close>

text \<open>
  The parser holds references to \<^verbatim>\<open>State\<close> objects: the one \<^verbatim>\<open>findOrCreateState\<close>
  returns and the ones on \<^verbatim>\<open>stateStack\<close>. Every state is created by
  \<^verbatim>\<open>findOrCreateState\<close>, and only when \<^verbatim>\<open>findState\<close> finds no state of that name, so
  a name identifies the object; the model holds the name and changes the state that
  \<^verbatim>\<open>findState\<close> finds for it. \<^verbatim>\<open>findState\<close> of the parser searches in the same order
  as the validator's \<^const>\<open>findState\<close>.
\<close>

fun modify_state :: "string \<Rightarrow> (State \<Rightarrow> State) \<Rightarrow> State list \<Rightarrow> State list" where
  "modify_state nm f [] = []"
| "modify_state nm f (State n par en ex ts ch ini it # ss) =
     (if n = nm then f (State n par en ex ts ch ini it) # ss
      else if findState nm ch \<noteq> None
      then State n par en ex ts (modify_state nm f ch) ini it # ss
      else State n par en ex ts ch ini it # modify_state nm f ss)"

definition add_child :: "State \<Rightarrow> State \<Rightarrow> State" where
  "add_child c p =
     State (name p) (parent p) (entryActions p) (exitActions p) (transitions p)
       (children p @ [c]) (isInitial p) (initialTransition p)"

definition add_entryAction :: "string \<Rightarrow> State \<Rightarrow> State" where
  "add_entryAction a p =
     State (name p) (parent p) (entryActions p @ [a]) (exitActions p) (transitions p)
       (children p) (isInitial p) (initialTransition p)"

definition add_exitAction :: "string \<Rightarrow> State \<Rightarrow> State" where
  "add_exitAction a p =
     State (name p) (parent p) (entryActions p) (exitActions p @ [a]) (transitions p)
       (children p) (isInitial p) (initialTransition p)"

definition add_transition :: "Transition \<Rightarrow> State \<Rightarrow> State" where
  "add_transition t p =
     State (name p) (parent p) (entryActions p) (exitActions p) (transitions p @ [t])
       (children p) (isInitial p) (initialTransition p)"

text \<open>
  The parser's state: the machine being built, the stack of open blocks (the innermost
  first), and the flags and the buffer of the loop of \<^verbatim>\<open>parse\<close>.
\<close>

record parser =
  machine :: StateMachine
  stateStack :: "string list"
  inDiagram :: bool
  inMetadata :: bool
  metadataContent :: string

text \<open>
  \<^verbatim>\<open>findOrCreateState\<close>: a state that is not found is created empty, as a child of the
  innermost open block or, with no open block, as a root state.
\<close>

definition findOrCreateState :: "string \<Rightarrow> parser \<Rightarrow> parser" where
  "findOrCreateState nm p =
     (let sts = states (machine p)
      in if findState nm sts \<noteq> None then p
         else (case stateStack p of
                 [] \<Rightarrow>
                   p\<lparr>machine := (machine p)\<lparr>states := sts @ [State nm None [] [] [] [] None None]\<rparr>\<rparr>
               | innermost # below \<Rightarrow>
                   p\<lparr>machine := (machine p)\<lparr>states :=
                       modify_state innermost (add_child (State nm (Some innermost) [] [] [] [] None None)) sts\<rparr>\<rparr>))"

definition on_states :: "(State list \<Rightarrow> State list) \<Rightarrow> parser \<Rightarrow> parser" where
  "on_states f p = p\<lparr>machine := (machine p)\<lparr>states := f (states (machine p))\<rparr>\<rparr>"

definition parseTransition :: "string \<Rightarrow> parser \<Rightarrow> parser" where
  "parseTransition ln p =
     (case search arrow_at ln of
        None \<Rightarrow> p
      | Some g \<Rightarrow>
          (let p1 = findOrCreateState (a_source g) p;
               p2 = findOrCreateState (a_target g) p1;
               t = \<lparr>event = (case a_event g of Some e \<Rightarrow> e | None \<Rightarrow> []),
                    target = a_target g,
                    guard = map_option trim (a_guard g),
                    action = map_option trim (a_action g),
                    isInternal = None\<rparr>
           in on_states (modify_state (a_source g) (add_transition t)) p2))"

definition parseLine :: "string \<Rightarrow> parser \<Rightarrow> parser" where
  "parseLine ln p =
     (if str_includes ln ''[*]'' \<and> str_includes ln ''-->''
      then (case search initial_at ln of
              Some nm \<Rightarrow> p\<lparr>machine := (machine p)\<lparr>initialState := nm\<rparr>\<rparr>
            | None \<Rightarrow> p)
      else if startsWith ln ''state '' \<and> str_includes ln ''{''
      then (case search state_decl_at ln of
              Some nm \<Rightarrow> (let p1 = findOrCreateState nm p in p1\<lparr>stateStack := nm # stateStack p1\<rparr>)
            | None \<Rightarrow> p)
      else if ln = ''}'' then p\<lparr>stateStack := tl (stateStack p)\<rparr>
      else if startsWith ln ''entry:''
      then (case stateStack p of
              [] \<Rightarrow> p
            | innermost # below \<Rightarrow> on_states (modify_state innermost (add_entryAction (trim (drop 6 ln)))) p)
      else if startsWith ln ''exit:''
      then (case stateStack p of
              [] \<Rightarrow> p
            | innermost # below \<Rightarrow> on_states (modify_state innermost (add_exitAction (trim (drop 5 ln)))) p)
      else if str_includes ln ''-->'' then parseTransition ln p
      else if str_includes ln '':'' \<and> \<not> str_includes ln ''-->'' \<and> stateStack p \<noteq> []
      then (case search internal_transition_at ln of
              None \<Rightarrow> p
            | Some (ev, act) \<Rightarrow>
                (let innermost = hd (stateStack p)
                 in on_states (modify_state innermost
                      (add_transition \<lparr>event = ev, target = innermost, guard = None,
                                       action = Some act, isInternal = Some True\<rparr>)) p))
      else p)"

text \<open>
  \<^verbatim>\<open>parseMetadata\<close> reads the block with \<^verbatim>\<open>JSON.parse\<close> and, when that throws, line by
  line; what it reads is left to the parameter \<open>pm\<close>. Whatever it reads, it assigns only
  the name, the type, the priority, the stack size, the events and the data members of
  the machine, and it catches what it throws.
\<close>

definition parseMetadata ::
  "(string \<Rightarrow> StateMachine \<Rightarrow> StateMachine) \<Rightarrow> string \<Rightarrow> StateMachine \<Rightarrow> StateMachine" where
  "parseMetadata pm content sm =
     (let r = pm content sm
      in sm\<lparr>machine_name := machine_name r, machine_type := machine_type r,
            priority := priority r, stackSize := stackSize r, events := events r,
            dataMembers := dataMembers r\<rparr>)"

text \<open>One iteration of the loop of \<^verbatim>\<open>parse\<close>, for the raw line \<open>raw\<close>.\<close>

definition parse_line ::
  "(string \<Rightarrow> StateMachine \<Rightarrow> StateMachine) \<Rightarrow> parser \<Rightarrow> string \<Rightarrow> parser" where
  "parse_line pm p raw =
     (let ln = trim raw
      in if ln = [] \<or> (startsWith ln ''%%'' \<and> \<not> startsWith ln ''%%{'') then p
         else if startsWith ln ''%%{'' then p\<lparr>inMetadata := True, metadataContent := []\<rparr>
         else if ln = ''}%%'' \<and> inMetadata p
         then p\<lparr>inMetadata := False,
                 machine := parseMetadata pm (metadataContent p) (machine p)\<rparr>
         else if inMetadata p
         then p\<lparr>metadataContent := metadataContent p @ ln @ [CHR 0x0A]\<rparr>
         else if startsWith ln ''stateDiagram-v2'' \<or> startsWith ln ''stateDiagram''
         then p\<lparr>inDiagram := True\<rparr>
         else if \<not> inDiagram p then p
         else parseLine ln p)"

text \<open>
  \<^verbatim>\<open>setupHierarchy\<close>: every state with children gets an initial transition, to the first
  child that is the target of a \<^verbatim>\<open>@Q_INIT_SIG\<close> transition of a root state, or else to
  the first child. \<open>roots\<close> is \<^verbatim>\<open>this.stateMachine.states\<close>, whose transitions this pass
  does not change.
\<close>

fun setupHierarchy_state :: "State list \<Rightarrow> State \<Rightarrow> State"
  and setupHierarchy_states :: "State list \<Rightarrow> State list \<Rightarrow> State list" where
  "setupHierarchy_state roots (State n par en ex ts ch ini it) =
     State n par en ex ts (setupHierarchy_states roots ch) ini
       (if length ch > 0
        then (case find (\<lambda>child. list_ex (\<lambda>s. list_ex (\<lambda>t. target t = name child \<and>
                              event t = ''@Q_INIT_SIG'') (transitions s)) roots) ch of
                Some initialChild \<Rightarrow>
                  Some \<lparr>event = ''@Q_INIT_SIG'', target = name initialChild,
                        guard = None, action = None, isInternal = None\<rparr>
              | None \<Rightarrow>
                  Some \<lparr>event = ''@Q_INIT_SIG'', target = name (ch ! 0),
                        guard = None, action = None, isInternal = None\<rparr>)
        else it)"
| "setupHierarchy_states roots [] = []"
| "setupHierarchy_states roots (s # ss) =
     setupHierarchy_state roots s # setupHierarchy_states roots ss"

definition initial_parser :: parser where
  "initial_parser =
     \<lparr>machine = \<lparr>machine_name = ''StateMachine'', machine_type = QActive, priority = None,
                  stackSize = None, events = [], states = [], initialState = [],
                  dataMembers = []\<rparr>,
      stateStack = [], inDiagram = False, inMetadata = False, metadataContent = []\<rparr>"

definition parse :: "(string \<Rightarrow> StateMachine \<Rightarrow> StateMachine) \<Rightarrow> string \<Rightarrow> StateMachine" where
  "parse pm content =
     (let p = foldl (parse_line pm) initial_parser (split_lines content);
          sm = machine p
      in sm\<lparr>states := setupHierarchy_states (states sm) (states sm)\<rparr>)"

section \<open>Properties of the structural parser\<close>

subsection \<open>Every target names a state of the tree\<close>

text \<open>The names of the states of a forest, and the targets of their transitions.\<close>

definition state_names :: "State list \<Rightarrow> string set" where
  "state_names sts = name ` set (collectStates sts)"

definition transition_targets :: "State list \<Rightarrow> string set" where
  "transition_targets sts = (\<Union>s\<in>set (collectStates sts). target ` set (transitions s))"

lemma collectStates_append: "collectStates (xs @ ys) = collectStates xs @ collectStates ys"
  by (induction xs rule: collectStates.induct) simp_all

lemma state_names_simps:
  "state_names [] = {}"
  "state_names (State n par en ex ts ch ini it # ss) = insert n (state_names ch \<union> state_names ss)"
  "state_names (xs @ ys) = state_names xs \<union> state_names ys"
  by (auto simp: state_names_def collectStates_append)

lemma transition_targets_simps:
  "transition_targets [] = {}"
  "transition_targets (State n par en ex ts ch ini it # ss) =
     target ` set ts \<union> transition_targets ch \<union> transition_targets ss"
  "transition_targets (xs @ ys) = transition_targets xs \<union> transition_targets ys"
  by (auto simp: transition_targets_def collectStates_append)

lemma state_names_Cons: "state_names (s # ss) = state_names [s] \<union> state_names ss"
  using state_names_simps(3) [of "[s]" ss] by simp

lemma transition_targets_Cons:
  "transition_targets (s # ss) = transition_targets [s] \<union> transition_targets ss"
  using transition_targets_simps(3) [of "[s]" ss] by simp

text \<open>\<^verbatim>\<open>findState\<close> finds a name exactly when a state of the forest has it.\<close>

lemma findState_iff: "findState nm sts \<noteq> None \<longleftrightarrow> nm \<in> state_names sts"
  by (induction sts rule: collectStates.induct)
    (auto simp: state_names_simps split: option.splits)

lemma findState_Some_iff: "(\<exists>y. findState nm sts = Some y) \<longleftrightarrow> nm \<in> state_names sts"
  using findState_iff [of nm sts] by auto

text \<open>
  What a change of the state of one name does to the names and to the targets of the
  forest, in terms of what it does to that state.
\<close>

lemma state_names_modify_state:
  "\<forall>s. state_names [s] \<subseteq> state_names [f s] \<Longrightarrow>
   state_names sts \<subseteq> state_names (modify_state nm f sts)"
proof (induction nm f sts rule: modify_state.induct)
  case (1 nm f)
  show ?case by simp
next
  case (2 nm f n par en ex ts ch ini it ss)
  show ?case
  proof (cases "n = nm")
    case True
    have "state_names (State n par en ex ts ch ini it # ss) =
        state_names [State n par en ex ts ch ini it] \<union> state_names ss"
      by (rule state_names_Cons)
    also have "\<dots> \<subseteq> state_names [f (State n par en ex ts ch ini it)] \<union> state_names ss"
      using "2.prems" by blast
    also have "\<dots> = state_names (f (State n par en ex ts ch ini it) # ss)"
      by (rule state_names_Cons [symmetric])
    finally show ?thesis using True by simp
  next
    case False
    show ?thesis
    proof (cases "findState nm ch \<noteq> None")
      case True
      from "2.IH"(1) [OF False True "2.prems"] False True show ?thesis
        by (auto simp: state_names_simps)
    next
      case nf: False
      from "2.IH"(2) [OF False nf "2.prems"] False nf show ?thesis
        by (auto simp: state_names_simps)
    qed
  qed
qed

lemma state_names_modify_state_found:
  "nm \<in> state_names sts \<Longrightarrow> \<forall>s. name s = nm \<longrightarrow> x \<in> state_names [f s] \<Longrightarrow>
   x \<in> state_names (modify_state nm f sts)"
proof (induction nm f sts rule: modify_state.induct)
  case (1 nm f)
  then show ?case by (simp add: state_names_simps)
next
  case (2 nm f n par en ex ts ch ini it ss)
  show ?case
  proof (cases "n = nm")
    case True
    with "2.prems"(2) have "x \<in> state_names [f (State n par en ex ts ch ini it)]" by simp
    then have "x \<in> state_names (f (State n par en ex ts ch ini it) # ss)"
      using state_names_Cons [of "f (State n par en ex ts ch ini it)" ss] by simp
    with True show ?thesis by simp
  next
    case False
    show ?thesis
    proof (cases "findState nm ch \<noteq> None")
      case True
      then have "nm \<in> state_names ch" by (rule findState_iff [THEN iffD1])
      from "2.IH"(1) [OF False True this "2.prems"(2)] False True show ?thesis
        by (simp add: state_names_simps)
    next
      case nf: False
      then have "nm \<notin> state_names ch" using findState_iff [of nm ch] by blast
      with "2.prems"(1) False have "nm \<in> state_names ss" by (simp add: state_names_simps)
      from "2.IH"(2) [OF False nf this "2.prems"(2)] False nf show ?thesis
        by (simp add: state_names_simps)
    qed
  qed
qed

lemma transition_targets_modify_state:
  "\<forall>s. transition_targets [f s] \<subseteq> transition_targets [s] \<union> A \<Longrightarrow>
   transition_targets (modify_state nm f sts) \<subseteq> transition_targets sts \<union> A"
proof (induction nm f sts rule: modify_state.induct)
  case (1 nm f)
  show ?case by (simp add: transition_targets_simps)
next
  case (2 nm f n par en ex ts ch ini it ss)
  show ?case
  proof (cases "n = nm")
    case True
    have "transition_targets (f (State n par en ex ts ch ini it) # ss) =
        transition_targets [f (State n par en ex ts ch ini it)] \<union> transition_targets ss"
      by (rule transition_targets_Cons)
    also have "\<dots> \<subseteq> transition_targets [State n par en ex ts ch ini it] \<union> A \<union> transition_targets ss"
      using "2.prems" by blast
    also have "\<dots> = transition_targets (State n par en ex ts ch ini it # ss) \<union> A"
      using transition_targets_Cons [of "State n par en ex ts ch ini it" ss] by blast
    finally show ?thesis using True by simp
  next
    case False
    show ?thesis
    proof (cases "findState nm ch \<noteq> None")
      case True
      from "2.IH"(1) [OF False True "2.prems"] False True show ?thesis
        by (auto simp: transition_targets_simps)
    next
      case nf: False
      from "2.IH"(2) [OF False nf "2.prems"] False nf show ?thesis
        by (auto simp: transition_targets_simps)
    qed
  qed
qed

lemma add_child_names: "state_names [add_child c s] = state_names [s] \<union> state_names [c]"
  by (cases s) (auto simp: add_child_def state_names_simps)

lemma add_child_targets:
  "transition_targets [add_child c s] = transition_targets [s] \<union> transition_targets [c]"
  by (cases s) (auto simp: add_child_def transition_targets_simps)

lemma add_transition_names: "state_names [add_transition t s] = state_names [s]"
  by (cases s) (simp add: add_transition_def state_names_simps)

lemma add_transition_targets:
  "transition_targets [add_transition t s] = insert (target t) (transition_targets [s])"
  by (cases s) (simp add: add_transition_def transition_targets_simps)

lemma add_entryAction_same:
  "state_names [add_entryAction a s] = state_names [s]"
  "transition_targets [add_entryAction a s] = transition_targets [s]"
  by (cases s; simp add: add_entryAction_def state_names_simps transition_targets_simps)+

lemma add_exitAction_same:
  "state_names [add_exitAction a s] = state_names [s]"
  "transition_targets [add_exitAction a s] = transition_targets [s]"
  by (cases s; simp add: add_exitAction_def state_names_simps transition_targets_simps)+

text \<open>
  The invariant of the loop of \<^verbatim>\<open>parse\<close>: every open block and every transition target is
  the name of a state of the tree.
\<close>

definition parser_inv :: "parser \<Rightarrow> bool" where
  "parser_inv p \<longleftrightarrow>
     set (stateStack p) \<subseteq> state_names (states (machine p)) \<and>
     transition_targets (states (machine p)) \<subseteq> state_names (states (machine p))"

lemma findOrCreateState_effect:
  assumes "set (stateStack p) \<subseteq> state_names (states (machine p))"
  shows "insert nm (state_names (states (machine p))) \<subseteq>
      state_names (states (machine (findOrCreateState nm p)))"
    and "transition_targets (states (machine (findOrCreateState nm p))) \<subseteq>
      transition_targets (states (machine p))"
    and "stateStack (findOrCreateState nm p) = stateStack p"
proof -
  let ?sts = "states (machine p)"
  let ?new = "\<lambda>par. State nm par [] [] [] [] None None"
  show "stateStack (findOrCreateState nm p) = stateStack p"
    by (simp add: findOrCreateState_def Let_def split: list.splits)
  show "insert nm (state_names ?sts) \<subseteq> state_names (states (machine (findOrCreateState nm p)))"
  proof (cases "findState nm ?sts \<noteq> None")
    case True
    then have "nm \<in> state_names ?sts" by (rule findState_iff [THEN iffD1])
    with True show ?thesis by (auto simp: findOrCreateState_def)
  next
    case False
    show ?thesis
    proof (cases "stateStack p")
      case Nil
      with False show ?thesis
        by (simp add: findOrCreateState_def Let_def state_names_simps)
    next
      case (Cons innermost below)
      with assms have inn: "innermost \<in> state_names ?sts" by simp
      let ?f = "add_child (?new (Some innermost))"
      have "state_names ?sts \<subseteq> state_names (modify_state innermost ?f ?sts)"
        by (rule state_names_modify_state) (simp add: add_child_names)
      moreover have "nm \<in> state_names (modify_state innermost ?f ?sts)"
        by (rule state_names_modify_state_found [OF inn])
          (simp add: add_child_names state_names_simps)
      ultimately show ?thesis using False Cons
        by (simp add: findOrCreateState_def Let_def)
    qed
  qed
  show "transition_targets (states (machine (findOrCreateState nm p))) \<subseteq> transition_targets ?sts"
  proof (cases "findState nm ?sts \<noteq> None")
    case True
    then show ?thesis by (simp add: findOrCreateState_def)
  next
    case False
    show ?thesis
    proof (cases "stateStack p")
      case Nil
      with False show ?thesis
        by (simp add: findOrCreateState_def Let_def transition_targets_simps)
    next
      case (Cons innermost below)
      let ?f = "add_child (?new (Some innermost))"
      have "transition_targets (modify_state innermost ?f ?sts) \<subseteq> transition_targets ?sts \<union> {}"
        by (rule transition_targets_modify_state)
          (simp add: add_child_targets transition_targets_simps)
      with False Cons show ?thesis
        by (simp add: findOrCreateState_def Let_def)
    qed
  qed
qed

lemma findOrCreateState_inv:
  assumes "parser_inv p"
  shows "parser_inv (findOrCreateState nm p)"
    and "nm \<in> state_names (states (machine (findOrCreateState nm p)))"
proof -
  from assms have st: "set (stateStack p) \<subseteq> state_names (states (machine p))"
    and tg: "transition_targets (states (machine p)) \<subseteq> state_names (states (machine p))"
    by (simp_all add: parser_inv_def)
  note eff = findOrCreateState_effect [OF st, of nm]
  from eff(1) show "nm \<in> state_names (states (machine (findOrCreateState nm p)))" by blast
  have "set (stateStack (findOrCreateState nm p)) \<subseteq>
      state_names (states (machine (findOrCreateState nm p)))"
    unfolding eff(3) using eff(1) st by (rule_tac order_trans [OF st]) blast
  moreover have "transition_targets (states (machine (findOrCreateState nm p))) \<subseteq>
      state_names (states (machine (findOrCreateState nm p)))"
    using eff(1) by (intro order_trans [OF eff(2)] order_trans [OF tg]) blast
  ultimately show "parser_inv (findOrCreateState nm p)"
    unfolding parser_inv_def by (rule conjI)
qed

lemma on_states_inv:
  assumes "parser_inv p"
    and "state_names (states (machine p)) \<subseteq> state_names (f (states (machine p)))"
    and "transition_targets (f (states (machine p))) \<subseteq>
      transition_targets (states (machine p)) \<union> state_names (states (machine p))"
  shows "parser_inv (on_states f p)"
  using assms unfolding parser_inv_def on_states_def by auto

lemma add_transition_inv:
  assumes "parser_inv p" and "target t \<in> state_names (states (machine p))"
  shows "parser_inv (on_states (modify_state nm (add_transition t)) p)"
proof (rule on_states_inv [OF assms(1)])
  show "state_names (states (machine p)) \<subseteq>
      state_names (modify_state nm (add_transition t) (states (machine p)))"
    by (rule state_names_modify_state) (simp add: add_transition_names)
  have "transition_targets (modify_state nm (add_transition t) (states (machine p))) \<subseteq>
      transition_targets (states (machine p)) \<union> {target t}"
    by (rule transition_targets_modify_state) (auto simp: add_transition_targets)
  with assms(2) show "transition_targets (modify_state nm (add_transition t) (states (machine p))) \<subseteq>
      transition_targets (states (machine p)) \<union> state_names (states (machine p))"
    by blast
qed

lemma parseTransition_inv:
  assumes "parser_inv p"
  shows "parser_inv (parseTransition ln p)"
proof (cases "search arrow_at ln")
  case None
  with assms show ?thesis by (simp add: parseTransition_def)
next
  case (Some g)
  let ?p1 = "findOrCreateState (a_source g) p"
  let ?p2 = "findOrCreateState (a_target g) ?p1"
  from findOrCreateState_inv [OF assms] have p1: "parser_inv ?p1" by simp
  from findOrCreateState_inv [OF p1] have p2: "parser_inv ?p2"
    and tg: "a_target g \<in> state_names (states (machine ?p2))" by simp_all
  from add_transition_inv [OF p2, of _ "a_source g"] tg Some show ?thesis
    by (simp add: parseTransition_def Let_def)
qed

lemma same_states_inv:
  "parser_inv p \<Longrightarrow> states (machine p') = states (machine p) \<Longrightarrow>
   set (stateStack p') \<subseteq> set (stateStack p) \<Longrightarrow> parser_inv p'"
  unfolding parser_inv_def by auto

lemma parseLine_inv:
  assumes "parser_inv p"
  shows "parser_inv (parseLine ln p)"
proof -
  have initial: "parser_inv (case search initial_at ln of
              Some nm \<Rightarrow> p\<lparr>machine := (machine p)\<lparr>initialState := nm\<rparr>\<rparr>
            | None \<Rightarrow> p)"
    using assms by (auto split: option.splits intro: same_states_inv)
  have decl: "parser_inv (case search state_decl_at ln of
              Some nm \<Rightarrow> (let p1 = findOrCreateState nm p in p1\<lparr>stateStack := nm # stateStack p1\<rparr>)
            | None \<Rightarrow> p)"
  proof (cases "search state_decl_at ln")
    case None
    with assms show ?thesis by simp
  next
    case (Some nm)
    from findOrCreateState_inv [OF assms, of nm] Some show ?thesis
      by (simp add: Let_def parser_inv_def)
  qed
  have "set (tl (stateStack p)) \<subseteq> set (stateStack p)"
    by (cases "stateStack p") auto
  then have pop: "parser_inv (p\<lparr>stateStack := tl (stateStack p)\<rparr>)"
    by (intro same_states_inv [OF assms]) simp_all
  have entry: "parser_inv (case stateStack p of
              [] \<Rightarrow> p
            | innermost # below \<Rightarrow> on_states (modify_state innermost (add_entryAction a)) p)" for a
  proof (cases "stateStack p")
    case Nil
    with assms show ?thesis by simp
  next
    case (Cons innermost below)
    have "parser_inv (on_states (modify_state innermost (add_entryAction a)) p)"
    proof (rule on_states_inv [OF assms])
      show "state_names (states (machine p)) \<subseteq>
          state_names (modify_state innermost (add_entryAction a) (states (machine p)))"
        by (rule state_names_modify_state) (simp add: add_entryAction_same)
      have "transition_targets (modify_state innermost (add_entryAction a) (states (machine p))) \<subseteq>
          transition_targets (states (machine p)) \<union> {}"
        by (rule transition_targets_modify_state) (simp add: add_entryAction_same)
      then show "transition_targets (modify_state innermost (add_entryAction a) (states (machine p))) \<subseteq>
          transition_targets (states (machine p)) \<union> state_names (states (machine p))"
        by blast
    qed
    with Cons show ?thesis by simp
  qed
  have exit: "parser_inv (case stateStack p of
              [] \<Rightarrow> p
            | innermost # below \<Rightarrow> on_states (modify_state innermost (add_exitAction a)) p)" for a
  proof (cases "stateStack p")
    case Nil
    with assms show ?thesis by simp
  next
    case (Cons innermost below)
    have "parser_inv (on_states (modify_state innermost (add_exitAction a)) p)"
    proof (rule on_states_inv [OF assms])
      show "state_names (states (machine p)) \<subseteq>
          state_names (modify_state innermost (add_exitAction a) (states (machine p)))"
        by (rule state_names_modify_state) (simp add: add_exitAction_same)
      have "transition_targets (modify_state innermost (add_exitAction a) (states (machine p))) \<subseteq>
          transition_targets (states (machine p)) \<union> {}"
        by (rule transition_targets_modify_state) (simp add: add_exitAction_same)
      then show "transition_targets (modify_state innermost (add_exitAction a) (states (machine p))) \<subseteq>
          transition_targets (states (machine p)) \<union> state_names (states (machine p))"
        by blast
    qed
    with Cons show ?thesis by simp
  qed
  have internal: "parser_inv (case search internal_transition_at ln of
              None \<Rightarrow> p
            | Some (ev, act) \<Rightarrow>
                (let innermost = hd (stateStack p)
                 in on_states (modify_state innermost
                      (add_transition \<lparr>event = ev, target = innermost, guard = None,
                                       action = Some act, isInternal = Some True\<rparr>)) p))"
    if open_block: "stateStack p \<noteq> []"
  proof (cases "search internal_transition_at ln")
    case None
    with assms show ?thesis by simp
  next
    case (Some r)
    obtain ev act where r: "r = (ev, act)" by (cases r)
    from open_block assms have "hd (stateStack p) \<in> state_names (states (machine p))"
      by (auto simp: parser_inv_def)
    from add_transition_inv [OF assms, of "\<lparr>event = ev, target = hd (stateStack p), guard = None,
        action = Some act, isInternal = Some True\<rparr>" "hd (stateStack p)"] this Some r
    show ?thesis by (simp add: Let_def)
  qed
  show ?thesis
    unfolding parseLine_def
    using initial decl pop entry exit internal parseTransition_inv [OF assms] assms
    by simp
qed

lemma parse_line_inv:
  assumes "parser_inv p"
  shows "parser_inv (parse_line pm p raw)"
proof -
  have "parser_inv p'" if "states (machine p') = states (machine p)" "stateStack p' = stateStack p" for p'
    using assms that by (auto intro: same_states_inv)
  then show ?thesis
    unfolding parse_line_def Let_def
    using parseLine_inv [OF assms] assms
    by (simp add: parseMetadata_def Let_def)
qed

lemma parse_lines_inv: "parser_inv p \<Longrightarrow> parser_inv (foldl (parse_line pm) p lns)"
  by (induction lns arbitrary: p) (simp_all add: parse_line_inv)

lemma initial_parser_inv: "parser_inv initial_parser"
  by (simp add: parser_inv_def initial_parser_def state_names_simps transition_targets_simps)

lemma setupHierarchy_states_same:
  "state_names (setupHierarchy_states roots sts) = state_names sts \<and>
   transition_targets (setupHierarchy_states roots sts) = transition_targets sts"
  by (induction sts rule: collectStates.induct)
    (simp_all add: state_names_simps transition_targets_simps)

text \<open>
  For every input of ASCII text, every transition of every state of the machine \<^verbatim>\<open>parse\<close>
  returns has a target that \<^verbatim>\<open>findState\<close> finds in the whole tree. (The initial transitions that
  \<^verbatim>\<open>setupHierarchy\<close> adds are not among a state's \<^verbatim>\<open>transitions\<close>; the validator's
  missing-target check does not look at them.)
\<close>

lemma parsed_targets_exist:
  assumes "s \<in> set (collectStates (states (parse pm content)))" and "t \<in> set (transitions s)"
    and "ascii_text content"
  shows "findState (target t) (states (parse pm content)) \<noteq> None"
proof -
  let ?p = "foldl (parse_line pm) initial_parser (split_lines content)"
  have sts: "states (parse pm content) =
      setupHierarchy_states (states (machine ?p)) (states (machine ?p))"
    by (simp add: parse_def Let_def)
  from parse_lines_inv [OF initial_parser_inv]
  have "transition_targets (states (machine ?p)) \<subseteq> state_names (states (machine ?p))"
    by (simp add: parser_inv_def)
  then have "transition_targets (states (parse pm content)) \<subseteq> state_names (states (parse pm content))"
    unfolding sts by (simp add: setupHierarchy_states_same)
  moreover from assms(1,2) have "target t \<in> transition_targets (states (parse pm content))"
    by (auto simp: transition_targets_def)
  ultimately have "target t \<in> state_names (states (parse pm content))" by blast
  then show ?thesis by (rule findState_iff [THEN iffD2])
qed

subsection \<open>A target that exists and is reported missing\<close>

text \<open>
  A diagram with a nested state \<^verbatim>\<open>X\<close> in the block \<^verbatim>\<open>A\<close> whose transition goes to the
  root state \<^verbatim>\<open>C\<close>, and the machine \<^verbatim>\<open>parse\<close> builds from it.
\<close>

definition nested_target_input :: string where
  "nested_target_input =
     ''stateDiagram-v2'' @ [CHR 0x0A] @
     ''    [*] --> C'' @ [CHR 0x0A] @
     ''    C --> D : E'' @ [CHR 0x0A] @
     ''    state A {'' @ [CHR 0x0A] @
     ''        X --> C : GO'' @ [CHR 0x0A] @
     ''    }'' @ [CHR 0x0A] @
     ''    D --> A : F''"

definition nested_target_machine :: StateMachine where
  "nested_target_machine =
     \<lparr>machine_name = ''StateMachine'', machine_type = QActive, priority = None,
      stackSize = None, events = [],
      states =
        [State ''C'' None [] []
           [\<lparr>event = ''E'', target = ''D'', guard = None, action = None,
             isInternal = None\<rparr>] [] None None,
         State ''D'' None [] []
           [\<lparr>event = ''F'', target = ''A'', guard = None, action = None,
             isInternal = None\<rparr>] [] None None,
         State ''A'' None [] [] []
           [State ''X'' (Some ''A'') [] []
              [\<lparr>event = ''GO'', target = ''C'', guard = None, action = None,
                isInternal = None\<rparr>] [] None None]
           None
           (Some \<lparr>event = ''@Q_INIT_SIG'', target = ''X'', guard = None, action = None,
                  isInternal = None\<rparr>)],
      initialState = ''C'', dataMembers = []\<rparr>"

text \<open>
  Claim C9 says that a machine freshly built by the parser never gets the validator's
  missing-target error, since every target names a state of the tree. Every target does
  name a state of the tree, as shown above; the error is reported all the same. For
  this diagram the parser builds the machine above, in which the target \<^verbatim>\<open>C\<close> of the
  transition of \<^verbatim>\<open>A.X\<close> is a root state. The validator nevertheless reports that \<^verbatim>\<open>C\<close> does not exist,
  run directly on the parsed machine or after the resolver: \<^verbatim>\<open>validateStateTransitions\<close>
  looks a target up in the array it was called with, which for a nested state is the
  array of its siblings.
\<close>

theorem parsed_target_reported_missing:
  "parse pm nested_target_input = nested_target_machine \<and>
   findState ''C'' (states (parse pm nested_target_input)) \<noteq> None \<and>
   \<lparr>severity = Error,
    message = ''Transition target '' @ quote @ ''C'' @ quote @ '' does not exist'',
    location = at_transition ''A.X'' ''GO''\<rparr>
     \<in> set (validate (parse pm nested_target_input)) \<and>
   \<lparr>severity = Error,
    message = ''Transition target '' @ quote @ ''C'' @ quote @ '' does not exist'',
    location = at_transition ''A.X'' ''GO''\<rparr>
     \<in> set (validate (snd (parseHierarchicalStates {} (parse pm nested_target_input))))"
proof -
  have built: "parse pm nested_target_input = nested_target_machine"
    by code_simp
  have found: "findState ''C'' (states nested_target_machine) \<noteq> None"
    by code_simp
  have resolved: "snd (parseHierarchicalStates {} nested_target_machine) = nested_target_machine"
    by code_simp
  have "validate nested_target_machine =
     [\<lparr>severity = Warning, message = ''State machine should have a meaningful name'',
       location = None\<rparr>,
      \<lparr>severity = Error,
       message = ''Transition target '' @ quote @ ''C'' @ quote @ '' does not exist'',
       location = at_transition ''A.X'' ''GO''\<rparr>]"
    by code_simp
  then show ?thesis
    by (simp only: built found resolved) simp
qed

end
